theory Spec2Isabelle
  imports Complex_Main
begin

section \<open>The semantic question matcher of \<open>backend/chatbot/semantic_model.py\<close>\<close>

text \<open>
  The module keeps three globals (\<open>_tokenizer\<close>, \<open>_model\<close>, \<open>_QUESTIONS\<close>), loads them
  lazily, and calls into \<open>transformers\<close>, \<open>torch\<close>, \<open>json\<close> and the file system.  The
  library calls are parameters of the model (a record \<open>env\<close>); each of them may raise, so
  each returns \<open>'e + result\<close> with \<open>Inl\<close> the exception.  The globals are a record that
  every function takes and returns.  The record also carries a trace of the library calls
  made so far, so that statements about which computation happens, how often and in which
  order can be written down.
\<close>

subsection \<open>Python floats\<close>

text \<open>
  The similarity score that the loop compares is a Python float: NaN or a finite value,
  the finite values taken as the real numbers they denote.  Python's \<open>a > b\<close> is false
  as soon as one side is NaN.  No arithmetic is done on scores in this module, only
  comparisons.
\<close>

datatype pyfloat = NaN | Fin real

fun fgt :: "pyfloat \<Rightarrow> pyfloat \<Rightarrow> bool" where
  "fgt (Fin x) (Fin y) = (y < x)"
| "fgt _ _ = False"

subsection \<open>The library and the file system\<close>

record ('e, 'tok, 'mdl, 'enc, 'out, 'vec) env =
  AutoTokenizer_from_pretrained :: "string \<Rightarrow> 'e + 'tok"
  AutoModel_from_pretrained :: "string \<Rightarrow> 'e + 'mdl"
  read_questions_json :: "'e + string list"
  tokenizer_call :: "'tok \<Rightarrow> string \<Rightarrow> 'e + 'enc"
  model_call :: "'mdl \<Rightarrow> 'enc \<Rightarrow> 'e + 'out"
  mean_dim1 :: "'out \<Rightarrow> 'vec"
  cosine_similarity_item :: "'vec \<Rightarrow> 'vec \<Rightarrow> 'e + pyfloat"

text \<open>
  \<open>read_questions_json\<close> is \<open>open(questions_path)\<close> followed by
  \<open>json.load(f)["questions"]\<close>; the file is not part of the sources, and its payload is
  taken to be a list of strings.  \<open>model_call\<close> gives the \<open>last_hidden_state\<close> of the
  model's output and \<open>mean_dim1\<close> is its \<open>.mean(dim=1)\<close>: tensors and the float32
  arithmetic of torch on them are left uninterpreted (the types \<open>'out\<close> and \<open>'vec\<close>).
  \<open>cosine_similarity_item\<close> is \<open>torch.nn.functional.cosine_similarity(u, v).item()\<close>.
\<close>

datatype event =
    Print string
  | Tokenizer_from_pretrained string
  | Model_from_pretrained string
  | Read_questions
  | Call_get_embedding string
  | Tokenizer_call string
  | Model_call bool
  | Cosine_similarity

text \<open>
  \<open>Model_call g\<close> records a forward pass of the model, \<open>g\<close> telling whether gradient
  tracking was enabled around it.  \<open>Call_get_embedding text\<close> records an entry into
  \<open>get_embedding\<close>.
\<close>

subsection \<open>The module's globals\<close>

record ('tok, 'mdl) globals =
  g_tokenizer :: "'tok option"
  g_model :: "'mdl option"
  g_QUESTIONS :: "string list option"
  trace :: "event list"

definition initial :: "('tok, 'mdl) globals" where
  "initial = \<lparr>g_tokenizer = None, g_model = None, g_QUESTIONS = None, trace = []\<rparr>"

definition emit :: "event \<Rightarrow> ('tok, 'mdl) globals \<Rightarrow> ('tok, 'mdl) globals" where
  "emit ev s = s\<lparr>trace := trace s @ [ev]\<rparr>"

definition MODEL_NAME :: string where
  "MODEL_NAME = ''sentence-transformers/all-MiniLM-L6-v2''"

subsection \<open>The functions of the module\<close>

definition load_model ::
  "('e, 'tok, 'mdl, 'enc, 'out, 'vec) env \<Rightarrow> ('tok, 'mdl) globals \<Rightarrow>
     ('e + 'tok \<times> 'mdl) \<times> ('tok, 'mdl) globals" where
  "load_model env s =
     (case (g_tokenizer s, g_model s) of
        (Some tok, Some mdl) \<Rightarrow> (Inr (tok, mdl), s)
      | _ \<Rightarrow>
         (let s1 = emit (Tokenizer_from_pretrained MODEL_NAME)
                     (emit (Print ''Loading semantic model...'') s)
          in case AutoTokenizer_from_pretrained env MODEL_NAME of
               Inl e \<Rightarrow> (Inl e, s1)
             | Inr tok \<Rightarrow>
                 (let s2 = emit (Model_from_pretrained MODEL_NAME) (s1\<lparr>g_tokenizer := Some tok\<rparr>)
                  in case AutoModel_from_pretrained env MODEL_NAME of
                       Inl e \<Rightarrow> (Inl e, s2)
                     | Inr mdl \<Rightarrow>
                         (Inr (tok, mdl),
                          emit (Print ''Semantic model loaded successfully'')
                            (s2\<lparr>g_model := Some mdl\<rparr>)))))"

definition load_questions ::
  "('e, 'tok, 'mdl, 'enc, 'out, 'vec) env \<Rightarrow> ('tok, 'mdl) globals \<Rightarrow>
     ('e + string list) \<times> ('tok, 'mdl) globals" where
  "load_questions env s =
     (case g_QUESTIONS s of
        Some qs \<Rightarrow> (Inr qs, s)
      | None \<Rightarrow>
         (let s1 = emit Read_questions s
          in case read_questions_json env of
               Inl e \<Rightarrow> (Inl e, s1)
             | Inr qs \<Rightarrow> (Inr qs, s1\<lparr>g_QUESTIONS := Some qs\<rparr>)))"

definition get_embedding ::
  "('e, 'tok, 'mdl, 'enc, 'out, 'vec) env \<Rightarrow> string \<Rightarrow> ('tok, 'mdl) globals \<Rightarrow>
     ('e + 'vec) \<times> ('tok, 'mdl) globals" where
  "get_embedding env text s =
     (case load_model env (emit (Call_get_embedding text) s) of
        (Inl e, s1) \<Rightarrow> (Inl e, s1)
      | (Inr (tokenizer, model), s1) \<Rightarrow>
         (let s2 = emit (Tokenizer_call text) s1
          in case tokenizer_call env tokenizer text of
               Inl e \<Rightarrow> (Inl e, s2)
             | Inr tokens \<Rightarrow>
                 (let s3 = emit (Model_call False) s2
                  in case model_call env model tokens of
                       Inl e \<Rightarrow> (Inl e, s3)
                     | Inr last_hidden_state \<Rightarrow> (Inr (mean_dim1 env last_hidden_state), s3))))"

text \<open>
  The \<open>for\<close> loop of \<open>find_best_match\<close>, with its two loop variables \<open>best_match\<close> and
  \<open>highest_similarity\<close>.
\<close>

fun scan ::
  "('e, 'tok, 'mdl, 'enc, 'out, 'vec) env \<Rightarrow> 'vec \<Rightarrow> string list \<Rightarrow> string option \<Rightarrow> pyfloat \<Rightarrow>
     ('tok, 'mdl) globals \<Rightarrow> ('e + string option \<times> pyfloat) \<times> ('tok, 'mdl) globals" where
  "scan env user_embedding [] best_match highest_similarity s =
     (Inr (best_match, highest_similarity), s)"
| "scan env user_embedding (question # rest) best_match highest_similarity s =
     (case get_embedding env question s of
        (Inl e, s1) \<Rightarrow> (Inl e, s1)
      | (Inr question_embedding, s1) \<Rightarrow>
         (let s2 = emit Cosine_similarity s1
          in case cosine_similarity_item env user_embedding question_embedding of
               Inl e \<Rightarrow> (Inl e, s2)
             | Inr similarity \<Rightarrow>
                 (if fgt similarity highest_similarity
                  then scan env user_embedding rest (Some question) similarity s2
                  else scan env user_embedding rest best_match highest_similarity s2)))"

definition find_best_match ::
  "('e, 'tok, 'mdl, 'enc, 'out, 'vec) env \<Rightarrow> string \<Rightarrow> ('tok, 'mdl) globals \<Rightarrow>
     ('e + string option) \<times> ('tok, 'mdl) globals" where
  "find_best_match env user_query s =
     (case load_questions env s of
        (Inl e, s1) \<Rightarrow> (Inl e, s1)
      | (Inr QUESTIONS, s1) \<Rightarrow>
         (case get_embedding env user_query s1 of
            (Inl e, s2) \<Rightarrow> (Inl e, s2)
          | (Inr user_embedding, s2) \<Rightarrow>
             (case scan env user_embedding QUESTIONS None (Fin (- 1)) s2 of
                (Inl e, s3) \<Rightarrow> (Inl e, s3)
              | (Inr (best_match, highest_similarity), s3) \<Rightarrow>
                 (Inr (if fgt highest_similarity (Fin (7 / 10)) then best_match else None),
                  s3))))"

subsection \<open>Vocabulary for the statements\<close>

text \<open>
  What a call reads from the globals or, when they are not set yet, from the library:
  the reference questions, the two handles, the embedding of a text and the similarity
  that the loop computes between the query and a reference question.
\<close>

definition questions_of :: "('e, 'tok, 'mdl, 'enc, 'out, 'vec) env \<Rightarrow> ('tok, 'mdl) globals \<Rightarrow> 'e + string list" where
  "questions_of env s = (case g_QUESTIONS s of Some qs \<Rightarrow> Inr qs | None \<Rightarrow> read_questions_json env)"

definition handles_of :: "('e, 'tok, 'mdl, 'enc, 'out, 'vec) env \<Rightarrow> ('tok, 'mdl) globals \<Rightarrow> 'e + 'tok \<times> 'mdl" where
  "handles_of env s =
     (case (g_tokenizer s, g_model s) of
        (Some tok, Some mdl) \<Rightarrow> Inr (tok, mdl)
      | _ \<Rightarrow>
         (case AutoTokenizer_from_pretrained env MODEL_NAME of
            Inl e \<Rightarrow> Inl e
          | Inr tok \<Rightarrow>
             (case AutoModel_from_pretrained env MODEL_NAME of
                Inl e \<Rightarrow> Inl e
              | Inr mdl \<Rightarrow> Inr (tok, mdl))))"

definition embed_with :: "('e, 'tok, 'mdl, 'enc, 'out, 'vec) env \<Rightarrow> 'tok \<Rightarrow> 'mdl \<Rightarrow> string \<Rightarrow> 'e + 'vec" where
  "embed_with env tok mdl text =
     (case tokenizer_call env tok text of
        Inl e \<Rightarrow> Inl e
      | Inr tokens \<Rightarrow>
         (case model_call env mdl tokens of
            Inl e \<Rightarrow> Inl e
          | Inr h \<Rightarrow> Inr (mean_dim1 env h)))"

definition similarity_to ::
  "('e, 'tok, 'mdl, 'enc, 'out, 'vec) env \<Rightarrow> 'tok \<Rightarrow> 'mdl \<Rightarrow> 'vec \<Rightarrow> string \<Rightarrow> 'e + pyfloat" where
  "similarity_to env tok mdl u q =
     (case embed_with env tok mdl q of
        Inl e \<Rightarrow> Inl e
      | Inr v \<Rightarrow> cosine_similarity_item env u v)"

fun scan_result ::
  "(string \<Rightarrow> 'e + pyfloat) \<Rightarrow> string list \<Rightarrow> string option \<Rightarrow> pyfloat \<Rightarrow>
     'e + string option \<times> pyfloat" where
  "scan_result sim [] b h = Inr (b, h)"
| "scan_result sim (q # qs) b h =
     (case sim q of
        Inl e \<Rightarrow> Inl e
      | Inr x \<Rightarrow> if fgt x h then scan_result sim qs (Some q) x else scan_result sim qs b h)"

definition loaded :: "('tok, 'mdl) globals \<Rightarrow> 'tok \<Rightarrow> 'mdl \<Rightarrow> bool" where
  "loaded s tok mdl \<longleftrightarrow> g_tokenizer s = Some tok \<and> g_model s = Some mdl"

definition similarity_of ::
  "('e, 'tok, 'mdl, 'enc, 'out, 'vec) env \<Rightarrow> ('tok, 'mdl) globals \<Rightarrow> string \<Rightarrow> string \<Rightarrow> 'e + pyfloat" where
  "similarity_of env s user_query question =
     (case handles_of env s of
        Inl e \<Rightarrow> Inl e
      | Inr (tok, mdl) \<Rightarrow>
         (case embed_with env tok mdl user_query of
            Inl e \<Rightarrow> Inl e
          | Inr u \<Rightarrow> similarity_to env tok mdl u question))"

definition match_result ::
  "('e, 'tok, 'mdl, 'enc, 'out, 'vec) env \<Rightarrow> ('tok, 'mdl) globals \<Rightarrow> string \<Rightarrow> 'e + string option" where
  "match_result env s user_query =
     (case questions_of env s of
        Inl e \<Rightarrow> Inl e
      | Inr qs \<Rightarrow>
         (case handles_of env s of
            Inl e \<Rightarrow> Inl e
          | Inr (tok, mdl) \<Rightarrow>
             (case embed_with env tok mdl user_query of
                Inl e \<Rightarrow> Inl e
              | Inr u \<Rightarrow>
                 (case scan_result (similarity_to env tok mdl u) qs None (Fin (- 1)) of
                    Inl e \<Rightarrow> Inl e
                  | Inr (b, h) \<Rightarrow> Inr (if fgt h (Fin (7 / 10)) then b else None)))))"

subsection \<open>The scores the library can return\<close>

text \<open>
  The model of \<open>MODEL_NAME\<close> is loaded with its default dtype and nothing in the module
  changes it, so the tensors are float32 and the score that \<open>.item()\<close> hands to Python is
  the value of a float32: an integer of fewer than 25 bits times a power of two.
\<close>

definition float32 :: "real \<Rightarrow> bool" where
  "float32 x \<longleftrightarrow>
     (\<exists>m e :: int. \<bar>m\<bar> < 2 ^ 24 \<and> - 149 \<le> e \<and> e \<le> 104 \<and> x = of_int m * 2 powi e)"

subsection \<open>A small concrete library\<close>

text \<open>
  A tokenizer that rejects the empty string, a model and a pooling that hand the text on
  unchanged, and a similarity that depends on the lengths of the two texts only.
\<close>

definition demo_cosine :: "string \<Rightarrow> string \<Rightarrow> string + pyfloat" where
  "demo_cosine u v =
     Inr (Fin (if length u = length v then 1
               else if \<bar>real (length u) - real (length v)\<bar> = 1 then 7 / 10 else 1 / 5))"

definition demo_env :: "string list \<Rightarrow> (string, string, string, string, string, string) env" where
  "demo_env qs =
     \<lparr>AutoTokenizer_from_pretrained = (\<lambda>name. Inr ''tokenizer''),
      AutoModel_from_pretrained = (\<lambda>name. Inr ''model''),
      read_questions_json = Inr qs,
      tokenizer_call = (\<lambda>tok text. if text = [] then Inl ''EncodingError'' else Inr text),
      model_call = (\<lambda>mdl tokens. Inr tokens),
      mean_dim1 = (\<lambda>out. out),
      cosine_similarity_item = demo_cosine\<rparr>"

text \<open>
  Variants of it: a similarity with float32 values only, a tokenizer that accepts every
  string, and a model artifact that cannot be loaded.
\<close>

definition demo_cosine32 :: "string \<Rightarrow> string \<Rightarrow> string + pyfloat" where
  "demo_cosine32 u v = Inr (Fin (if length u = length v then 1 else 3 / 4))"

definition demo_env32 :: "string list \<Rightarrow> (string, string, string, string, string, string) env" where
  "demo_env32 qs = (demo_env qs)\<lparr>cosine_similarity_item := demo_cosine32\<rparr>"

definition demo_env_any :: "string list \<Rightarrow> (string, string, string, string, string, string) env" where
  "demo_env_any qs = (demo_env qs)\<lparr>tokenizer_call := (\<lambda>tok text. Inr text)\<rparr>"

definition demo_env_no_model :: "string list \<Rightarrow> (string, string, string, string, string, string) env" where
  "demo_env_no_model qs =
     (demo_env qs)\<lparr>AutoModel_from_pretrained := (\<lambda>name. Inl ''ModelLoadError'')\<rparr>"

subsection \<open>The events of a call\<close>

text \<open>
  The library calls that each function makes, in order, as a function of the globals it
  starts from.
\<close>

definition questions_events :: "('tok, 'mdl) globals \<Rightarrow> event list" where
  "questions_events s = (case g_QUESTIONS s of Some qs \<Rightarrow> [] | None \<Rightarrow> [Read_questions])"

definition model_events :: "('e, 'tok, 'mdl, 'enc, 'out, 'vec) env \<Rightarrow> ('tok, 'mdl) globals \<Rightarrow> event list" where
  "model_events env s =
     (case (g_tokenizer s, g_model s) of
        (Some tok, Some mdl) \<Rightarrow> []
      | _ \<Rightarrow>
         Print ''Loading semantic model...'' # Tokenizer_from_pretrained MODEL_NAME #
         (case AutoTokenizer_from_pretrained env MODEL_NAME of
            Inl e \<Rightarrow> []
          | Inr tok \<Rightarrow>
             Model_from_pretrained MODEL_NAME #
             (case AutoModel_from_pretrained env MODEL_NAME of
                Inl e \<Rightarrow> []
              | Inr mdl \<Rightarrow> [Print ''Semantic model loaded successfully''])))"

definition inference_events :: "('e, 'tok, 'mdl, 'enc, 'out, 'vec) env \<Rightarrow> 'tok \<Rightarrow> string \<Rightarrow> event list" where
  "inference_events env tok text =
     Tokenizer_call text #
     (case tokenizer_call env tok text of Inl e \<Rightarrow> [] | Inr tokens \<Rightarrow> [Model_call False])"

definition get_embedding_events ::
  "('e, 'tok, 'mdl, 'enc, 'out, 'vec) env \<Rightarrow> ('tok, 'mdl) globals \<Rightarrow> string \<Rightarrow> event list" where
  "get_embedding_events env s text =
     Call_get_embedding text # model_events env s @
     (case handles_of env s of Inl e \<Rightarrow> [] | Inr (tok, mdl) \<Rightarrow> inference_events env tok text)"

fun scan_events ::
  "('e, 'tok, 'mdl, 'enc, 'out, 'vec) env \<Rightarrow> 'tok \<Rightarrow> 'mdl \<Rightarrow> 'vec \<Rightarrow> string list \<Rightarrow> event list" where
  "scan_events env tok mdl u [] = []"
| "scan_events env tok mdl u (q # qs) =
     Call_get_embedding q # inference_events env tok q @
     (case embed_with env tok mdl q of
        Inl e \<Rightarrow> []
      | Inr v \<Rightarrow>
         Cosine_similarity #
         (case cosine_similarity_item env u v of
            Inl e \<Rightarrow> []
          | Inr x \<Rightarrow> scan_events env tok mdl u qs))"

definition find_best_match_events ::
  "('e, 'tok, 'mdl, 'enc, 'out, 'vec) env \<Rightarrow> ('tok, 'mdl) globals \<Rightarrow> string \<Rightarrow> event list" where
  "find_best_match_events env s user_query =
     questions_events s @
     (case questions_of env s of
        Inl e \<Rightarrow> []
      | Inr qs \<Rightarrow>
         get_embedding_events env s user_query @
         (case handles_of env s of
            Inl e \<Rightarrow> []
          | Inr (tok, mdl) \<Rightarrow>
             (case embed_with env tok mdl user_query of
                Inl e \<Rightarrow> []
              | Inr u \<Rightarrow> scan_events env tok mdl u qs)))"

subsection \<open>A process serving several queries\<close>

text \<open>
  The caller (the \<open>/chat\<close> handler of \<open>main.py\<close>) catches whatever a call raises and
  goes on with the next request, so the globals that one call leaves are the globals the
  next call starts from.
\<close>

fun run_calls ::
  "('e, 'tok, 'mdl, 'enc, 'out, 'vec) env \<Rightarrow> string list \<Rightarrow> ('tok, 'mdl) globals \<Rightarrow> ('tok, 'mdl) globals" where
  "run_calls env [] s = s"
| "run_calls env (user_query # rest) s = run_calls env rest (snd (find_best_match env user_query s))"

text \<open>The events of an initialization: the reads and loads, and the two log lines.\<close>

fun is_load :: "event \<Rightarrow> bool" where
  "is_load (Print line) = True"
| "is_load (Tokenizer_from_pretrained name) = True"
| "is_load (Model_from_pretrained name) = True"
| "is_load Read_questions = True"
| "is_load ev = False"

definition initialization :: "event list" where
  "initialization =
     [Read_questions, Print ''Loading semantic model...'',
      Tokenizer_from_pretrained MODEL_NAME, Model_from_pretrained MODEL_NAME,
      Print ''Semantic model loaded successfully'']"

section \<open>Properties\<close>

subsection \<open>The calls, state by state\<close>

lemma emit_simps [simp]:
  "g_tokenizer (emit ev s) = g_tokenizer s"
  "g_model (emit ev s) = g_model s"
  "g_QUESTIONS (emit ev s) = g_QUESTIONS s"
  "trace (emit ev s) = trace s @ [ev]"
  by (simp_all add: emit_def)

lemma load_model_loaded:
  "loaded s tok mdl \<Longrightarrow> load_model env s = (Inr (tok, mdl), s)"
  by (simp add: load_model_def loaded_def)

lemma load_model_fst: "fst (load_model env s) = handles_of env s"
  by (simp add: load_model_def handles_of_def Let_def split: option.splits sum.splits)

lemma load_model_Inr:
  assumes "load_model env s = (Inr (tok, mdl), s')"
  shows "loaded s' tok mdl" and "g_QUESTIONS s' = g_QUESTIONS s"
  using assms
  by (auto simp: load_model_def loaded_def Let_def split: option.splits sum.splits)

lemma load_model_QUESTIONS: "g_QUESTIONS (snd (load_model env s)) = g_QUESTIONS s"
  by (simp add: load_model_def Let_def split: option.splits sum.splits)

lemma get_embedding_loaded:
  assumes "loaded s tok mdl"
  shows "fst (get_embedding env text s) = embed_with env tok mdl text"
    and "loaded (snd (get_embedding env text s)) tok mdl"
    and "g_QUESTIONS (snd (get_embedding env text s)) = g_QUESTIONS s"
proof -
  have l: "loaded (emit (Call_get_embedding text) s) tok mdl"
    using assms by (simp add: loaded_def)
  show "fst (get_embedding env text s) = embed_with env tok mdl text"
    by (simp add: get_embedding_def load_model_loaded [OF l] embed_with_def Let_def split: sum.splits)
  show "loaded (snd (get_embedding env text s)) tok mdl"
    using assms
    by (simp add: get_embedding_def load_model_loaded [OF l] Let_def loaded_def split: sum.splits)
  show "g_QUESTIONS (snd (get_embedding env text s)) = g_QUESTIONS s"
    by (simp add: get_embedding_def load_model_loaded [OF l] Let_def split: sum.splits)
qed

lemma scan_loaded:
  "loaded s tok mdl \<Longrightarrow>
     fst (scan env u qs b h s) = scan_result (similarity_to env tok mdl u) qs b h \<and>
     loaded (snd (scan env u qs b h s)) tok mdl \<and>
     g_QUESTIONS (snd (scan env u qs b h s)) = g_QUESTIONS s"
proof (induction qs arbitrary: b h s)
  case Nil
  then show ?case by simp
next
  case (Cons q qs)
  obtain r s1 where g: "get_embedding env q s = (r, s1)" by (cases "get_embedding env q s")
  from get_embedding_loaded [OF Cons.prems, of env q] g
  have r: "embed_with env tok mdl q = r" and l1: "loaded s1 tok mdl" and q1: "g_QUESTIONS s1 = g_QUESTIONS s"
    by simp_all
  have l2: "loaded (emit Cosine_similarity s1) tok mdl" using l1 by (simp add: loaded_def)
  show ?case
  proof (cases r)
    case (Inl e)
    with l1 q1 show ?thesis by (simp add: g r similarity_to_def)
  next
    case (Inr v)
    show ?thesis
    proof (cases "cosine_similarity_item env u v")
      case (Inl e)
      with Inr l2 q1 show ?thesis by (simp add: g r similarity_to_def Let_def)
    next
      case sim: (Inr x)
      from Cons.IH [OF l2] Inr sim q1 show ?thesis
        by (simp add: g r similarity_to_def Let_def)
    qed
  qed
qed

lemma emit_handles_of [simp]: "handles_of env (emit ev s) = handles_of env s"
  by (simp add: handles_of_def)

lemma get_embedding_fst:
  "fst (get_embedding env text s) =
     (case handles_of env s of Inl e \<Rightarrow> Inl e | Inr (tok, mdl) \<Rightarrow> embed_with env tok mdl text)"
proof -
  obtain r s1 where lm: "load_model env (emit (Call_get_embedding text) s) = (r, s1)"
    by (cases "load_model env (emit (Call_get_embedding text) s)")
  from load_model_fst [of env "emit (Call_get_embedding text) s"] lm
  have "handles_of env s = r" by simp
  then show ?thesis
    by (simp add: get_embedding_def lm embed_with_def Let_def split: sum.splits prod.splits)
qed

lemma get_embedding_Inr:
  assumes "get_embedding env text s = (Inr v, s')"
  obtains tok mdl where "handles_of env s = Inr (tok, mdl)" and "loaded s' tok mdl"
    and "embed_with env tok mdl text = Inr v" and "g_QUESTIONS s' = g_QUESTIONS s"
proof -
  obtain r s1 where lm: "load_model env (emit (Call_get_embedding text) s) = (r, s1)"
    by (cases "load_model env (emit (Call_get_embedding text) s)")
  from assms lm obtain tok mdl where r: "r = Inr (tok, mdl)"
    by (cases r) (auto simp: get_embedding_def)
  from load_model_fst [of env "emit (Call_get_embedding text) s"] lm r
  have h: "handles_of env s = Inr (tok, mdl)" by simp
  from load_model_Inr [OF lm [unfolded r]]
  have l: "loaded s1 tok mdl" and q: "g_QUESTIONS s1 = g_QUESTIONS s" by simp_all
  from assms have "embed_with env tok mdl text = Inr v" and "loaded s' tok mdl" and "g_QUESTIONS s' = g_QUESTIONS s"
    using l q by (auto simp: get_embedding_def lm r embed_with_def Let_def loaded_def split: sum.splits)
  with h show ?thesis using that by blast
qed

lemma load_questions_fst: "fst (load_questions env s) = questions_of env s"
  by (simp add: load_questions_def questions_of_def Let_def split: option.splits sum.splits)

lemma load_questions_Inr:
  assumes "load_questions env s = (Inr qs, s')"
  shows "g_QUESTIONS s' = Some qs" and "g_tokenizer s' = g_tokenizer s" and "g_model s' = g_model s"
  using assms by (auto simp: load_questions_def Let_def split: option.splits sum.splits)

lemma load_questions_handles: "handles_of env (snd (load_questions env s)) = handles_of env s"
  by (simp add: load_questions_def handles_of_def Let_def split: option.splits sum.splits)

lemma find_best_match_fst: "fst (find_best_match env user_query s) = match_result env s user_query"
proof -
  obtain rq s1 where lq: "load_questions env s = (rq, s1)" by (cases "load_questions env s")
  from load_questions_fst [of env s] lq have rq: "questions_of env s = rq" by simp
  from load_questions_handles [of env s] lq have h1: "handles_of env s1 = handles_of env s" by simp
  show ?thesis
  proof (cases rq)
    case (Inl e)
    then show ?thesis by (simp add: find_best_match_def lq match_result_def rq)
  next
    case (Inr qs)
    obtain ru s2 where ge: "get_embedding env user_query s1 = (ru, s2)"
      by (cases "get_embedding env user_query s1")
    show ?thesis
    proof (cases ru)
      case (Inl e)
      with get_embedding_fst [of env user_query s1] ge h1 Inr show ?thesis
        by (auto simp: find_best_match_def lq match_result_def rq split: sum.splits)
    next
      case u: (Inr u)
      from get_embedding_Inr [OF ge [unfolded u]] obtain tok mdl where
        h: "handles_of env s1 = Inr (tok, mdl)" and l: "loaded s2 tok mdl"
        and e: "embed_with env tok mdl user_query = Inr u" by blast
      from scan_loaded [OF l, of env u qs None "Fin (- 1)"]
      have "fst (scan env u qs None (Fin (- 1)) s2) =
              scan_result (similarity_to env tok mdl u) qs None (Fin (- 1))" by simp
      then show ?thesis using h h1 e Inr u
        by (auto simp: find_best_match_def lq ge match_result_def rq split: sum.splits prod.splits)
    qed
  qed
qed

lemma get_embedding_QUESTIONS:
  "g_QUESTIONS (snd (get_embedding env text s)) = g_QUESTIONS s"
proof -
  obtain r s1 where lm: "load_model env (emit (Call_get_embedding text) s) = (r, s1)"
    by (cases "load_model env (emit (Call_get_embedding text) s)")
  from load_model_QUESTIONS [of env "emit (Call_get_embedding text) s"] lm
  have "g_QUESTIONS s1 = g_QUESTIONS s" by simp
  then show ?thesis
    by (simp add: get_embedding_def lm Let_def split: sum.splits prod.splits)
qed

lemma find_best_match_Inr:
  assumes "find_best_match env user_query s = (Inr r, s')"
  obtains qs tok mdl u b h where
    "questions_of env s = Inr qs" and "g_QUESTIONS s' = Some qs" and "loaded s' tok mdl"
    and "handles_of env s = Inr (tok, mdl)"
    and "embed_with env tok mdl user_query = Inr u"
    and "scan_result (similarity_to env tok mdl u) qs None (Fin (- 1)) = Inr (b, h)"
    and "r = (if fgt h (Fin (7 / 10)) then b else None)"
proof -
  obtain rq s1 where lq: "load_questions env s = (rq, s1)" by (cases "load_questions env s")
  from assms lq obtain qs where rq: "rq = Inr qs"
    by (cases rq) (simp_all add: find_best_match_def)
  obtain ru s2 where ge: "get_embedding env user_query s1 = (ru, s2)"
    by (cases "get_embedding env user_query s1")
  from assms obtain u where ru: "ru = Inr u"
    by (cases ru) (simp_all add: find_best_match_def lq rq ge)
  obtain rs s3 where sc: "scan env u qs None (Fin (- 1)) s2 = (rs, s3)"
    by (cases "scan env u qs None (Fin (- 1)) s2")
  have fb: "find_best_match env user_query s =
      (case rs of Inl e \<Rightarrow> (Inl e, s3)
       | Inr (best_match, highest_similarity) \<Rightarrow>
           (Inr (if fgt highest_similarity (Fin (7 / 10)) then best_match else None), s3))"
    by (simp add: find_best_match_def lq rq ge ru sc)
  from assms fb obtain b h where rs: "rs = Inr (b, h)"
    by (cases rs) auto
  from assms fb rs
  have r: "r = (if fgt h (Fin (7 / 10)) then b else None)" and s': "s' = s3"
    by auto
  from load_questions_fst [of env s] lq rq have q0: "questions_of env s = Inr qs" by simp
  from load_questions_Inr [OF lq [unfolded rq]]
  have q1: "g_QUESTIONS s1 = Some qs" by simp
  from load_questions_handles [of env s] lq have h1: "handles_of env s1 = handles_of env s" by simp
  from get_embedding_Inr [OF ge [unfolded ru]] obtain tok mdl where
    h: "handles_of env s1 = Inr (tok, mdl)" and l: "loaded s2 tok mdl"
    and e: "embed_with env tok mdl user_query = Inr u" and q2: "g_QUESTIONS s2 = g_QUESTIONS s1"
    by blast
  from scan_loaded [OF l, of env u qs None "Fin (- 1)"] sc rs
  have sr: "scan_result (similarity_to env tok mdl u) qs None (Fin (- 1)) = Inr (b, h)"
    and l3: "loaded s3 tok mdl" and q3: "g_QUESTIONS s3 = g_QUESTIONS s2" by simp_all
  have a: "g_QUESTIONS s' = Some qs" using q1 q2 q3 s' by simp
  have b: "loaded s' tok mdl" using l3 s' by simp
  have c: "handles_of env s = Inr (tok, mdl)" using h h1 by simp
  show ?thesis by (rule that [OF q0 a b c e sr r])
qed

subsection \<open>The loop on its own\<close>

lemma scan_result_member:
  "scan_result sim qs b h = Inr (b', h') \<Longrightarrow> b' = b \<or> (\<exists>q\<in>set qs. b' = Some q)"
proof (induction qs arbitrary: b h)
  case Nil
  then show ?case by simp
next
  case (Cons q qs)
  then show ?case
    by (fastforce split: sum.splits if_splits)
qed

lemma scan_result_real:
  assumes "\<forall>q\<in>set qs. sim q = Inr (Fin (score q))"
  shows "\<exists>b' h'. scan_result sim qs b (Fin h) = Inr (b', Fin h') \<and>
           h' = Max (insert h (score ` set qs)) \<and>
           (if h < h'
            then \<exists>i<length qs. b' = Some (qs ! i) \<and> score (qs ! i) = h' \<and>
                   (\<forall>k<i. score (qs ! k) < h')
            else b' = b)"
  using assms
proof (induction qs arbitrary: b h)
  case Nil
  then show ?case by simp
next
  case (Cons q qs)
  have sq: "sim q = Inr (Fin (score q))" using Cons.prems by simp
  have rest: "\<forall>q\<in>set qs. sim q = Inr (Fin (score q))" using Cons.prems by simp
  have fin: "finite (score ` set qs)" by simp
  show ?case
  proof (cases "h < score q")
    case True
    from Cons.IH [OF rest, of "Some q" "score q"] obtain b' h' where
      r: "scan_result sim qs (Some q) (Fin (score q)) = Inr (b', Fin h')"
      and m: "h' = Max (insert (score q) (score ` set qs))"
      and c: "if score q < h'
              then \<exists>i<length qs. b' = Some (qs ! i) \<and> score (qs ! i) = h' \<and>
                     (\<forall>k<i. score (qs ! k) < h')
              else b' = Some q" by blast
    have ge: "score q \<le> h'" unfolding m by simp
    have m': "h' = Max (insert h (score ` set (q # qs)))"
    proof -
      have "h \<le> h'" using True ge by simp
      then have "max h h' = h'" by (rule max.absorb2)
      moreover have "Max (insert h (score ` set (q # qs))) = max h (Max (insert (score q) (score ` set qs)))"
        by simp
      ultimately show ?thesis by (simp only: m)
    qed
    have hl: "h < h'" using True ge by simp
    have ex: "\<exists>i<length (q # qs). b' = Some ((q # qs) ! i) \<and> score ((q # qs) ! i) = h' \<and>
            (\<forall>k<i. score ((q # qs) ! k) < h')"
    proof (cases "score q < h'")
      case True
      with c obtain i where i: "i < length qs" "b' = Some (qs ! i)" "score (qs ! i) = h'"
        "\<forall>k<i. score (qs ! k) < h'" by auto
      have "\<forall>k<Suc i. score ((q # qs) ! k) < h'"
        using i(4) True by (auto simp: nth_Cons split: nat.splits)
      with i show ?thesis by (intro exI [of _ "Suc i"]) simp
    next
      case False
      with c ge have "b' = Some q" "score q = h'" by auto
      then show ?thesis by (intro exI [of _ 0]) simp
    qed
    have c': "if h < h'
              then \<exists>i<length (q # qs). b' = Some ((q # qs) ! i) \<and> score ((q # qs) ! i) = h' \<and>
                     (\<forall>k<i. score ((q # qs) ! k) < h')
              else b' = b"
      using hl ex by simp
    have res: "scan_result sim (q # qs) b (Fin h) = Inr (b', Fin h')"
      using r True sq by simp
    from res m' c' show ?thesis by blast
  next
    case False
    from Cons.IH [OF rest, of b h] obtain b' h' where
      r: "scan_result sim qs b (Fin h) = Inr (b', Fin h')"
      and m: "h' = Max (insert h (score ` set qs))"
      and c: "if h < h'
              then \<exists>i<length qs. b' = Some (qs ! i) \<and> score (qs ! i) = h' \<and>
                     (\<forall>k<i. score (qs ! k) < h')
              else b' = b" by blast
    have le: "score q \<le> h" using False by simp
    have "h \<le> h'" unfolding m by simp
    have m': "h' = Max (insert h (score ` set (q # qs)))"
    proof -
      have "score q \<le> h'" using le \<open>h \<le> h'\<close> by simp
      then have "max (score q) h' = h'" by (rule max.absorb2)
      moreover have "insert h (score ` set (q # qs)) = insert (score q) (insert h (score ` set qs))"
        by auto
      then have "Max (insert h (score ` set (q # qs))) = max (score q) (Max (insert h (score ` set qs)))"
        by (simp only: Max_insert [OF finite.insertI [OF fin] insert_not_empty])
      ultimately show ?thesis by (simp only: m)
    qed
    have c': "if h < h'
              then \<exists>i<length (q # qs). b' = Some ((q # qs) ! i) \<and> score ((q # qs) ! i) = h' \<and>
                     (\<forall>k<i. score ((q # qs) ! k) < h')
              else b' = b"
    proof (cases "h < h'")
      case True
      with c obtain i where i: "i < length qs" "b' = Some (qs ! i)" "score (qs ! i) = h'"
        "\<forall>k<i. score (qs ! k) < h'" by auto
      have "\<forall>k<Suc i. score ((q # qs) ! k) < h'"
        using i(4) True le by (auto simp: nth_Cons split: nat.splits)
      with i True show ?thesis by (auto intro!: exI [of _ "Suc i"])
    next
      case False
      with c show ?thesis by simp
    qed
    have res: "scan_result sim (q # qs) b (Fin h) = Inr (b', Fin h')"
      using r False sq by simp
    from res m' c' show ?thesis by blast
  qed
qed

lemma similarity_of_Inr:
  assumes "similarity_of env s user_query q = Inr x"
  obtains tok mdl u where "handles_of env s = Inr (tok, mdl)"
    and "embed_with env tok mdl user_query = Inr u"
    and "similarity_to env tok mdl u q = Inr x"
  using assms by (auto simp: similarity_of_def split: sum.splits)

lemma match_result_real:
  assumes qs: "questions_of env s = Inr qs" and ne: "qs \<noteq> []"
    and sims: "\<forall>q\<in>set qs. similarity_of env s user_query q = Inr (Fin (score q))"
  shows "\<exists>b. match_result env s user_query =
            Inr (if 7 / 10 < Max (score ` set qs) then b else None) \<and>
          (- 1 < Max (score ` set qs) \<longrightarrow>
             (\<exists>i<length qs. b = Some (qs ! i) \<and> score (qs ! i) = Max (score ` set qs) \<and>
                (\<forall>k<i. score (qs ! k) < score (qs ! i))))"
proof -
  from ne obtain q0 where q0: "q0 \<in> set qs" by (cases qs) auto
  with sims have "similarity_of env s user_query q0 = Inr (Fin (score q0))" by simp
  then obtain tok mdl u where h: "handles_of env s = Inr (tok, mdl)"
    and e: "embed_with env tok mdl user_query = Inr u"
    by (rule similarity_of_Inr)
  have st: "\<forall>q\<in>set qs. similarity_to env tok mdl u q = Inr (Fin (score q))"
    using sims by (simp add: similarity_of_def h e)
  from scan_result_real [OF st, of None "- 1"] obtain b' h' where
    r: "scan_result (similarity_to env tok mdl u) qs None (Fin (- 1)) = Inr (b', Fin h')"
    and m: "h' = Max (insert (- 1) (score ` set qs))"
    and c: "if - 1 < h'
            then \<exists>i<length qs. b' = Some (qs ! i) \<and> score (qs ! i) = h' \<and>
                   (\<forall>k<i. score (qs ! k) < h')
            else b' = None" by blast
  have fin: "finite (score ` set qs)" and nem: "score ` set qs \<noteq> {}" using ne by simp_all
  have m2: "h' = max (- 1) (Max (score ` set qs))"
    unfolding m by (rule Max_insert [OF fin nem])
  have thr: "(7 / 10 < h') = (7 / 10 < Max (score ` set qs))"
    unfolding m2 by (auto simp: max_def)
  have mr: "match_result env s user_query = Inr (if 7 / 10 < Max (score ` set qs) then b' else None)"
    using thr by (simp add: match_result_def qs h e r)
  have "\<exists>i<length qs. b' = Some (qs ! i) \<and> score (qs ! i) = Max (score ` set qs) \<and>
           (\<forall>k<i. score (qs ! k) < score (qs ! i))" if gt: "- 1 < Max (score ` set qs)"
  proof -
    from gt m2 have eq: "h' = Max (score ` set qs)" by (simp add: max_def)
    with gt c obtain i where "i < length qs" "b' = Some (qs ! i)" "score (qs ! i) = h'"
      "\<forall>k<i. score (qs ! k) < h'" by auto
    with eq show ?thesis by auto
  qed
  with mr show ?thesis by blast
qed

subsection \<open>The trace of a call\<close>

lemma load_model_trace: "trace (snd (load_model env s)) = trace s @ model_events env s"
  by (simp add: load_model_def model_events_def Let_def split: option.splits sum.splits)

lemma load_questions_trace: "trace (snd (load_questions env s)) = trace s @ questions_events s"
  by (simp add: load_questions_def questions_events_def Let_def split: option.splits sum.splits)

lemma emit_model_events [simp]: "model_events env (emit ev s) = model_events env s"
  by (simp add: model_events_def)

lemma get_embedding_trace:
  "trace (snd (get_embedding env text s)) = trace s @ get_embedding_events env s text"
proof -
  obtain r s1 where lm: "load_model env (emit (Call_get_embedding text) s) = (r, s1)"
    by (cases "load_model env (emit (Call_get_embedding text) s)")
  from load_model_fst [of env "emit (Call_get_embedding text) s"] lm
  have h: "handles_of env s = r" by simp
  from load_model_trace [of env "emit (Call_get_embedding text) s"] lm
  have t: "trace s1 = trace s @ Call_get_embedding text # model_events env s" by simp
  show ?thesis
    by (simp add: get_embedding_def lm h t get_embedding_events_def inference_events_def Let_def
        split: sum.splits prod.splits)
qed

lemma model_events_loaded: "loaded s tok mdl \<Longrightarrow> model_events env s = []"
  by (simp add: model_events_def loaded_def)

lemma handles_of_loaded: "loaded s tok mdl \<Longrightarrow> handles_of env s = Inr (tok, mdl)"
  by (simp add: handles_of_def loaded_def)

lemma get_embedding_trace_loaded:
  "loaded s tok mdl \<Longrightarrow>
     trace (snd (get_embedding env text s)) =
       trace s @ Call_get_embedding text # inference_events env tok text"
  by (simp add: get_embedding_trace get_embedding_events_def model_events_loaded handles_of_loaded)

lemma scan_trace:
  "loaded s tok mdl \<Longrightarrow>
     trace (snd (scan env u qs b h s)) = trace s @ scan_events env tok mdl u qs"
proof (induction qs arbitrary: b h s)
  case Nil
  then show ?case by simp
next
  case (Cons q qs)
  obtain r s1 where g: "get_embedding env q s = (r, s1)" by (cases "get_embedding env q s")
  from get_embedding_loaded [OF Cons.prems, of env q] g
  have r: "embed_with env tok mdl q = r" and l1: "loaded s1 tok mdl" by simp_all
  from get_embedding_trace_loaded [OF Cons.prems, of env q] g
  have t1: "trace s1 = trace s @ Call_get_embedding q # inference_events env tok q" by simp
  have l2: "loaded (emit Cosine_similarity s1) tok mdl" using l1 by (simp add: loaded_def)
  show ?case
  proof (cases r)
    case (Inl e)
    then show ?thesis by (simp add: g r t1)
  next
    case (Inr v)
    show ?thesis
    proof (cases "cosine_similarity_item env u v")
      case (Inl e)
      with Inr show ?thesis by (simp add: g r t1 Let_def)
    next
      case sim: (Inr x)
      from Cons.IH [OF l2] Inr sim show ?thesis
        by (simp add: g r t1 Let_def)
    qed
  qed
qed

lemma load_questions_handles_same:
  "g_tokenizer (snd (load_questions env s)) = g_tokenizer s"
  "g_model (snd (load_questions env s)) = g_model s"
  by (simp_all add: load_questions_def Let_def split: option.splits sum.splits)

lemma load_questions_model_events:
  "model_events env (snd (load_questions env s)) = model_events env s"
  by (simp add: model_events_def load_questions_handles_same)

lemma find_best_match_trace:
  "trace (snd (find_best_match env user_query s)) =
     trace s @ find_best_match_events env s user_query"
proof -
  obtain rq s1 where lq: "load_questions env s = (rq, s1)" by (cases "load_questions env s")
  from load_questions_fst [of env s] lq have rq: "questions_of env s = rq" by simp
  from load_questions_handles [of env s] lq have h1: "handles_of env s1 = handles_of env s" by simp
  from load_questions_model_events [of env s] lq
  have m1: "model_events env s1 = model_events env s" by simp
  from load_questions_trace [of env s] lq
  have t1: "trace s1 = trace s @ questions_events s" by simp
  show ?thesis
  proof (cases rq)
    case (Inl e)
    then show ?thesis by (simp add: find_best_match_def lq find_best_match_events_def rq t1)
  next
    case (Inr qs)
    obtain ru s2 where ge: "get_embedding env user_query s1 = (ru, s2)"
      by (cases "get_embedding env user_query s1")
    from get_embedding_trace [of env user_query s1] ge
    have t2: "trace s2 = trace s @ questions_events s @ get_embedding_events env s user_query"
      by (simp add: t1 get_embedding_events_def h1 m1)
    from get_embedding_fst [of env user_query s1] ge
    have fe: "(case handles_of env s of Inl e \<Rightarrow> Inl e
               | Inr (tok, mdl) \<Rightarrow> embed_with env tok mdl user_query) = ru"
      by (simp add: h1)
    show ?thesis
    proof (cases ru)
      case (Inl e)
      with fe have "(case handles_of env s of Inl e \<Rightarrow> []
          | Inr (tok, mdl) \<Rightarrow>
             (case embed_with env tok mdl user_query of
                Inl e \<Rightarrow> []
              | Inr u \<Rightarrow> scan_events env tok mdl u qs)) = []"
        by (auto split: sum.splits)
      with Inl Inr show ?thesis
        by (simp add: find_best_match_def lq ge find_best_match_events_def rq t2)
    next
      case u: (Inr u)
      from get_embedding_Inr [OF ge [unfolded u]] obtain tok mdl where
        h: "handles_of env s1 = Inr (tok, mdl)" and l: "loaded s2 tok mdl"
        and e: "embed_with env tok mdl user_query = Inr u" by blast
      obtain rs s3 where sc: "scan env u qs None (Fin (- 1)) s2 = (rs, s3)"
        by (cases "scan env u qs None (Fin (- 1)) s2")
      from scan_trace [OF l, of env u qs None "Fin (- 1)"] sc
      have t3: "trace s3 = trace s2 @ scan_events env tok mdl u qs" by simp
      have "snd (find_best_match env user_query s) = s3"
        using Inr u by (simp add: find_best_match_def lq ge sc split: sum.splits prod.splits)
      then show ?thesis
        using h h1 e Inr by (simp add: t3 t2 find_best_match_events_def rq)
    qed
  qed
qed

lemma get_embedding_handles:
  assumes "handles_of env s = Inr (tok, mdl)"
  shows "loaded (snd (get_embedding env text s)) tok mdl"
proof -
  obtain r s1 where lm: "load_model env (emit (Call_get_embedding text) s) = (r, s1)"
    by (cases "load_model env (emit (Call_get_embedding text) s)")
  from load_model_fst [of env "emit (Call_get_embedding text) s"] lm assms
  have r: "r = Inr (tok, mdl)" by simp
  from load_model_Inr(1) [OF lm [unfolded r]] have "loaded s1 tok mdl" .
  then show ?thesis
    by (simp add: get_embedding_def lm r Let_def loaded_def split: sum.splits)
qed

lemma scan_events_embedding_calls:
  "Call_get_embedding q \<in> set (scan_events env tok mdl u qs) \<Longrightarrow> q \<in> set qs"
  by (induction qs) (auto simp: inference_events_def split: sum.splits)

lemma scan_events_hd:
  "scan_events env tok mdl u qs \<noteq> [] \<Longrightarrow>
     hd (scan_events env tok mdl u qs) = Call_get_embedding (hd qs)"
  by (cases qs) simp_all

lemma inference_events_subset:
  "set (inference_events env tok text) \<subseteq> {Tokenizer_call text, Model_call False}"
  by (auto simp: inference_events_def split: sum.splits)

lemma find_best_match_events_split:
  assumes "questions_of env s = Inr qs"
  shows "\<exists>infer scanned.
           find_best_match_events env s user_query =
             questions_events s @ Call_get_embedding user_query # model_events env s @
             infer @ scanned \<and>
           set infer \<subseteq> {Tokenizer_call user_query, Model_call False} \<and>
           (\<forall>q. Call_get_embedding q \<in> set scanned \<longrightarrow> q \<in> set qs) \<and>
           (Cosine_similarity \<in> set scanned \<longrightarrow> qs \<noteq> []) \<and>
           (qs = [] \<longrightarrow> scanned = []) \<and>
           (scanned \<noteq> [] \<longrightarrow> hd scanned = Call_get_embedding (hd qs))"
proof (cases "handles_of env s")
  case (Inl e)
  have "find_best_match_events env s user_query =
          questions_events s @ Call_get_embedding user_query # model_events env s @ [] @ []"
    by (simp add: find_best_match_events_def assms Inl get_embedding_events_def)
  then show ?thesis by (intro exI [of _ "[]"]) simp
next
  case (Inr p)
  obtain tok mdl where p: "p = (tok, mdl)" by (cases p)
  let ?scanned = "case embed_with env tok mdl user_query of
                    Inl e \<Rightarrow> [] | Inr u \<Rightarrow> scan_events env tok mdl u qs"
  have eq: "find_best_match_events env s user_query =
          questions_events s @ Call_get_embedding user_query # model_events env s @
          inference_events env tok user_query @ ?scanned"
    by (simp add: find_best_match_events_def assms Inr p get_embedding_events_def)
  have a: "\<forall>q. Call_get_embedding q \<in> set ?scanned \<longrightarrow> q \<in> set qs"
    by (auto split: sum.splits dest: scan_events_embedding_calls)
  have b: "qs = [] \<longrightarrow> ?scanned = []"
    by (auto split: sum.splits)
  have c: "?scanned \<noteq> [] \<longrightarrow> hd ?scanned = Call_get_embedding (hd qs)"
    by (auto split: sum.splits simp: scan_events_hd)
  have d: "Cosine_similarity \<in> set ?scanned \<longrightarrow> qs \<noteq> []"
    using b by auto
  from eq inference_events_subset [of env tok user_query] a b c d show ?thesis
    by blast
qed

lemma Cosine_not_in_model_events: "Cosine_similarity \<notin> set (model_events env s)"
  by (auto simp: model_events_def split: option.splits sum.splits)

lemma Cosine_not_in_get_embedding_events:
  "Cosine_similarity \<notin> set (get_embedding_events env s text)"
  using inference_events_subset [of env _ "text"]
  by (auto simp: get_embedding_events_def Cosine_not_in_model_events split: sum.splits)

lemma Cosine_not_in_questions_events: "Cosine_similarity \<notin> set (questions_events s)"
  by (simp add: questions_events_def split: option.splits)

lemma match_result_empty:
  assumes "questions_of env s = Inr []"
  shows "match_result env s user_query =
           (case fst (get_embedding env user_query s) of Inl e \<Rightarrow> Inl e | Inr u \<Rightarrow> Inr None)"
  by (simp add: match_result_def assms get_embedding_fst split: sum.splits)

subsection \<open>Initialization events and sequences of calls\<close>

lemma loads_inference_events [simp]: "filter is_load (inference_events env tok q) = []"
  by (simp add: inference_events_def split: sum.splits)

lemma loads_scan_events [simp]: "filter is_load (scan_events env tok mdl u qs) = []"
  by (induction qs) (simp_all split: sum.splits)

lemma loads_model_events [simp]: "filter is_load (model_events env s) = model_events env s"
  by (simp add: model_events_def split: option.splits sum.splits)

lemma loads_questions_events [simp]: "filter is_load (questions_events s) = questions_events s"
  by (simp add: questions_events_def split: option.splits)

lemma loads_get_embedding_events [simp]:
  "filter is_load (get_embedding_events env s q) = model_events env s"
  by (simp add: get_embedding_events_def split: sum.splits)

lemma loads_find_best_match_events:
  "filter is_load (find_best_match_events env s user_query) =
     questions_events s @
     (case questions_of env s of Inl e \<Rightarrow> [] | Inr qs \<Rightarrow> model_events env s)"
  by (simp add: find_best_match_events_def split: sum.splits)

lemma find_best_match_ready:
  assumes "questions_of env s = Inr qs" and "handles_of env s = Inr (tok, mdl)"
  shows "loaded (snd (find_best_match env user_query s)) tok mdl"
    and "g_QUESTIONS (snd (find_best_match env user_query s)) = Some qs"
proof -
  obtain rq s1 where lq: "load_questions env s = (rq, s1)" by (cases "load_questions env s")
  from load_questions_fst [of env s] lq assms(1) have rq: "rq = Inr qs" by simp
  from load_questions_Inr [OF lq [unfolded rq]] have q1: "g_QUESTIONS s1 = Some qs" by simp
  from load_questions_handles [of env s] lq assms(2)
  have h1: "handles_of env s1 = Inr (tok, mdl)" by simp
  obtain ru s2 where ge: "get_embedding env user_query s1 = (ru, s2)"
    by (cases "get_embedding env user_query s1")
  from get_embedding_handles [OF h1, of user_query] ge have l2: "loaded s2 tok mdl" by simp
  from get_embedding_QUESTIONS [of env user_query s1] ge q1
  have q2: "g_QUESTIONS s2 = Some qs" by simp
  have "loaded (snd (find_best_match env user_query s)) tok mdl \<and>
        g_QUESTIONS (snd (find_best_match env user_query s)) = Some qs"
  proof (cases ru)
    case (Inl e)
    with l2 q2 show ?thesis by (simp add: find_best_match_def lq rq ge)
  next
    case (Inr u)
    obtain rs s3 where sc: "scan env u qs None (Fin (- 1)) s2 = (rs, s3)"
      by (cases "scan env u qs None (Fin (- 1)) s2")
    from scan_loaded [OF l2, of env u qs None "Fin (- 1)"] sc q2
    have "loaded s3 tok mdl" "g_QUESTIONS s3 = Some qs" by simp_all
    with Inr show ?thesis
      by (simp add: find_best_match_def lq rq ge sc split: sum.splits prod.splits)
  qed
  then show "loaded (snd (find_best_match env user_query s)) tok mdl"
    and "g_QUESTIONS (snd (find_best_match env user_query s)) = Some qs" by simp_all
qed

lemma questions_of_loaded: "g_QUESTIONS s = Some qs \<Longrightarrow> questions_of env s = Inr qs"
  by (simp add: questions_of_def)

lemma questions_events_loaded: "g_QUESTIONS s = Some qs \<Longrightarrow> questions_events s = []"
  by (simp add: questions_events_def)

lemma run_calls_ready:
  assumes "loaded s tok mdl" and "g_QUESTIONS s = Some qs"
  shows "loaded (run_calls env queries s) tok mdl \<and>
         g_QUESTIONS (run_calls env queries s) = Some qs \<and>
         filter is_load (trace (run_calls env queries s)) = filter is_load (trace s)"
  using assms
proof (induction queries arbitrary: s)
  case Nil
  then show ?case by simp
next
  case (Cons q queries)
  let ?s1 = "snd (find_best_match env q s)"
  have qo: "questions_of env s = Inr qs" using Cons.prems(2) by (rule questions_of_loaded)
  have ho: "handles_of env s = Inr (tok, mdl)" using Cons.prems(1) by (rule handles_of_loaded)
  from find_best_match_ready [OF qo ho, of q]
  have l1: "loaded ?s1 tok mdl" and q1: "g_QUESTIONS ?s1 = Some qs" by simp_all
  have t1: "filter is_load (trace ?s1) = filter is_load (trace s)"
    by (simp add: find_best_match_trace loads_find_best_match_events qo
        questions_events_loaded [OF Cons.prems(2)] model_events_loaded [OF Cons.prems(1)])
  from Cons.IH [OF l1 q1] t1 show ?case by simp
qed

lemma initial_fields [simp]:
  "g_tokenizer initial = None" "g_model initial = None" "g_QUESTIONS initial = None"
  "trace initial = []"
  by (simp_all add: initial_def)

subsection \<open>Failures in the loop\<close>

lemma scan_result_first_failure:
  assumes "i < length qs" and "\<forall>k<i. \<exists>x. sim (qs ! k) = Inr x" and "sim (qs ! i) = Inl e"
  shows "scan_result sim qs b h = Inl e"
  using assms
proof (induction qs arbitrary: i b h)
  case Nil
  then show ?case by simp
next
  case (Cons q qs)
  show ?case
  proof (cases i)
    case 0
    with Cons.prems(3) show ?thesis by simp
  next
    case (Suc j)
    from Cons.prems(2) Suc obtain x where x: "sim q = Inr x" by fastforce
    have j: "j < length qs" using Cons.prems(1) Suc by simp
    have before: "\<forall>k<j. \<exists>x. sim (qs ! k) = Inr x"
    proof (intro allI impI)
      fix k assume "k < j"
      then have "Suc k < i" using Suc by simp
      with Cons.prems(2) have "\<exists>x. sim ((q # qs) ! Suc k) = Inr x" by blast
      then show "\<exists>x. sim (qs ! k) = Inr x" by simp
    qed
    have at: "sim (qs ! j) = Inl e" using Cons.prems(3) Suc by simp
    from Cons.IH [OF j before at] x show ?thesis by simp
  qed
qed

lemma scan_result_all_succeeded:
  "scan_result sim qs b h = Inr r \<Longrightarrow> \<forall>q\<in>set qs. \<exists>x. sim q = Inr x"
proof (induction qs arbitrary: b h)
  case Nil
  then show ?case by simp
next
  case (Cons q qs)
  from Cons.prems obtain x where x: "sim q = Inr x"
    by (cases "sim q") simp_all
  with Cons.prems have "scan_result sim qs (if fgt x h then Some q else b) (if fgt x h then x else h) = Inr r"
    by (simp split: if_splits)
  from Cons.IH [OF this] x show ?case by simp
qed

subsection \<open>The threshold\<close>

lemma match_above_threshold:
  assumes "questions_of env s = Inr qs"
    and "\<forall>q\<in>set qs. similarity_of env s user_query q = Inr (Fin (score q))"
    and "q0 \<in> set qs" and "7 / 10 < score q0"
  shows "\<exists>q\<in>set qs. fst (find_best_match env user_query s) = Inr (Some q) \<and>
           score q0 \<le> score q \<and> score q = Max (score ` set qs)"
proof -
  from assms(3) have ne: "qs \<noteq> []" by auto
  have le: "score q0 \<le> Max (score ` set qs)" using assms(3) by simp
  with assms(4) have gt: "7 / 10 < Max (score ` set qs)" by simp
  from match_result_real [OF assms(1) ne assms(2)] obtain b where
    mr: "match_result env s user_query = Inr (if 7 / 10 < Max (score ` set qs) then b else None)"
    and b: "- 1 < Max (score ` set qs) \<longrightarrow>
             (\<exists>j<length qs. b = Some (qs ! j) \<and> score (qs ! j) = Max (score ` set qs) \<and>
                (\<forall>k<j. score (qs ! k) < score (qs ! j)))" by blast
  from gt have "- 1 < Max (score ` set qs)" by simp
  with b obtain j where j: "j < length qs" "b = Some (qs ! j)"
    "score (qs ! j) = Max (score ` set qs)" by blast
  have "qs ! j \<in> set qs" using j(1) by simp
  moreover have "fst (find_best_match env user_query s) = Inr (Some (qs ! j))"
    using mr gt j(2) by (simp add: find_best_match_fst)
  ultimately show ?thesis using le j(3) by auto
qed

lemma float32_gap:
  assumes "float32 x"
  shows "x \<le> 11744051 / 2 ^ 24 \<or> 11744052 / 2 ^ 24 \<le> x"
proof (rule ccontr)
  assume "\<not> (x \<le> 11744051 / 2 ^ 24 \<or> 11744052 / 2 ^ 24 \<le> x)"
  then have lo: "11744051 / 2 ^ 24 < x" and hi: "x < 11744052 / 2 ^ 24" by auto
  from assms obtain m e :: int where m: "\<bar>m\<bar> < 2 ^ 24" and x: "x = of_int m * 2 powi e"
    unfolding float32_def by blast
  have p: "0 < (2 :: real) powi e" by simp
  have xpos: "0 < x" using lo by simp
  have mpos: "0 < m"
  proof (rule ccontr)
    assume "\<not> 0 < m"
    then have "(of_int m :: real) \<le> 0" by simp
    with p have "of_int m * 2 powi e \<le> (0 :: real)" by (simp add: mult_le_0_iff)
    with x xpos show False by simp
  qed
  have mlt: "(of_int m :: real) < 2 ^ 24" using m mpos by simp
  have e: "- 24 \<le> e"
  proof (rule ccontr)
    assume "\<not> - 24 \<le> e"
    then have "e \<le> - 25" by simp
    then have "(2 :: real) powi e \<le> 2 powi (- 25)" by (rule power_int_increasing) simp
    then have "of_int m * 2 powi e \<le> (of_int m :: real) * 2 powi (- 25)"
      using mpos by (simp add: mult_left_mono)
    also have "\<dots> < 2 ^ 24 * 2 powi (- 25)" using mlt by simp
    also have "\<dots> = 1 / 2" by (simp add: power_int_minus)
    finally have "x < 1 / 2" using x by simp
    with lo show False by simp
  qed
  define k where "k = nat (e + 24)"
  have ek: "e + 24 = int k" using e by (simp add: k_def)
  have "x * 2 ^ 24 = of_int m * (2 powi e * 2 powi 24)" by (simp add: x)
  also have "2 powi e * 2 powi 24 = (2 :: real) powi (e + 24)" by (simp add: power_int_add)
  also have "\<dots> = 2 ^ k" by (simp add: ek)
  finally have n: "x * 2 ^ 24 = of_int (m * 2 ^ k)" by simp
  from lo have "11744051 < x * 2 ^ 24" by (simp add: field_simps)
  with n have a: "11744051 < m * 2 ^ k"
    by (metis of_int_less_iff of_int_numeral)
  from hi have "x * 2 ^ 24 < 11744052" by (simp add: field_simps)
  with n have b: "m * 2 ^ k < 11744052"
    by (metis of_int_less_iff of_int_numeral)
  from a b show False by simp
qed

lemma float32_at_least_threshold:
  assumes "float32 x" and "7 / 10 \<le> x"
  shows "7 / 10 < x"
proof -
  from float32_gap [OF assms(1)] have "x \<le> 11744051 / 2 ^ 24 \<or> 11744052 / 2 ^ 24 \<le> x" .
  moreover have "(11744051 :: real) / 2 ^ 24 < 7 / 10" by simp
  moreover have "(7 :: real) / 10 < 11744052 / 2 ^ 24" by simp
  ultimately show ?thesis using assms(2) by linarith
qed

lemma float32_examples: "float32 1" "float32 (3 / 4)"
proof -
  have "\<bar>1 :: int\<bar> < 2 ^ 24 \<and> - 149 \<le> (0 :: int) \<and> (0 :: int) \<le> 104 \<and>
        (1 :: real) = of_int 1 * 2 powi 0" by simp
  then show "float32 1" unfolding float32_def by blast
  have "\<bar>3 :: int\<bar> < 2 ^ 24 \<and> - 149 \<le> (- 2 :: int) \<and> (- 2 :: int) \<le> 104 \<and>
        (3 / 4 :: real) = of_int 3 * 2 powi (- 2)" by (simp add: power_int_minus)
  then show "float32 (3 / 4)" unfolding float32_def by blast
qed

subsection \<open>The concrete library, evaluated\<close>

lemma demo_questions [simp]: "questions_of (demo_env qs) initial = Inr qs"
  by (simp add: questions_of_def initial_def demo_env_def)

lemma demo_handles [simp]: "handles_of (demo_env qs) initial = Inr (''tokenizer'', ''model'')"
  by (simp add: handles_of_def initial_def demo_env_def)

lemma demo_cos [simp]: "cosine_similarity_item (demo_env qs) = demo_cosine"
  by (simp add: demo_env_def)

lemma demo_embed_with:
  "text \<noteq> [] \<Longrightarrow>
     embed_with (demo_env qs) tok mdl text = Inr text"
  by (simp add: embed_with_def demo_env_def)

lemma demo_similarity_to:
  "q \<noteq> [] \<Longrightarrow>
     similarity_to (demo_env qs) tok mdl text q =
       Inr (Fin (if length text = length q then 1
                 else if \<bar>real (length text) - real (length q)\<bar> = 1 then 7 / 10 else 1 / 5))"
  by (simp add: similarity_to_def demo_embed_with demo_cosine_def)

lemma demo_match_result:
  "user_query \<noteq> [] \<Longrightarrow>
     match_result (demo_env qs) initial user_query =
       (case scan_result
               (similarity_to (demo_env qs) ''tokenizer'' ''model''
                  user_query) qs None (Fin (- 1)) of
          Inl e \<Rightarrow> Inl e
        | Inr (b, h) \<Rightarrow> Inr (if fgt h (Fin (7 / 10)) then b else None))"
  by (simp add: match_result_def demo_embed_with)

lemma demo_run_1:
  "fst (find_best_match (demo_env [''AB'', ''C'']) ''XY'' initial) = Inr (Some ''AB'')"
  by (simp add: find_best_match_fst demo_match_result demo_similarity_to)

lemma demo_similarity_of:
  assumes "user_query \<noteq> []" and "q \<noteq> []"
  shows "similarity_of (demo_env qs) initial user_query q =
       Inr (Fin (if length user_query = length q then 1
                 else if \<bar>real (length user_query) - real (length q)\<bar> = 1 then 7 / 10 else 1 / 5))"
  using assms by (simp add: similarity_of_def demo_embed_with demo_similarity_to)

lemma demo_model_events:
  "model_events (demo_env qs) initial =
     [Print ''Loading semantic model...'', Tokenizer_from_pretrained MODEL_NAME,
      Model_from_pretrained MODEL_NAME, Print ''Semantic model loaded successfully'']"
  by (simp add: model_events_def initial_def demo_env_def)

lemma demo_questions_events: "questions_events initial = [Read_questions]"
  by (simp add: questions_events_def initial_def)

lemma demo_inference_events:
  "text \<noteq> [] \<Longrightarrow>
     inference_events (demo_env qs) tok text = [Tokenizer_call text, Model_call False]"
  by (simp add: inference_events_def demo_env_def)

lemma demo_get_embedding:
  "text \<noteq> [] \<Longrightarrow>
     fst (get_embedding (demo_env qs) text initial) = Inr text"
  by (simp add: get_embedding_fst demo_embed_with)

lemma demo_trace_empty:
  "trace (snd (find_best_match (demo_env []) ''XY'' initial)) =
     [Read_questions, Call_get_embedding ''XY'',
      Print ''Loading semantic model...'', Tokenizer_from_pretrained MODEL_NAME,
      Model_from_pretrained MODEL_NAME, Print ''Semantic model loaded successfully'',
      Tokenizer_call ''XY'', Model_call False]"
proof -
  have "trace (initial :: (string, string) globals) = []" by (simp add: initial_def)
  then show ?thesis
    by (simp add: find_best_match_trace find_best_match_events_def get_embedding_events_def
        demo_questions_events demo_model_events demo_inference_events demo_embed_with)
qed

lemma demo_loaders [simp]:
  "read_questions_json (demo_env qs) = Inr qs"
  "AutoTokenizer_from_pretrained (demo_env qs) name = Inr ''tokenizer''"
  "AutoModel_from_pretrained (demo_env qs) name = Inr ''model''"
  by (simp_all add: demo_env_def)

lemma demo_embed_with_empty:
  "embed_with (demo_env qs) tok mdl [] = Inl ''EncodingError''"
  by (simp add: embed_with_def demo_env_def)

lemma demo_similarity_to_empty:
  "similarity_to (demo_env qs) tok mdl u [] = Inl ''EncodingError''"
  by (simp add: similarity_to_def demo_embed_with_empty)

lemma demo32_similarity_of:
  assumes "user_query \<noteq> []" and "q \<noteq> []"
  shows "similarity_of (demo_env32 qs) initial user_query q =
           Inr (Fin (if length user_query = length q then 1 else 3 / 4))"
  using assms
  by (simp add: similarity_of_def similarity_to_def embed_with_def handles_of_def initial_def
      demo_env32_def demo_env_def demo_cosine32_def)

lemma demo32_questions: "questions_of (demo_env32 qs) initial = Inr qs"
  by (simp add: questions_of_def initial_def demo_env32_def demo_env_def)

lemma demo_any_questions: "questions_of (demo_env_any qs) initial = Inr qs"
  by (simp add: questions_of_def initial_def demo_env_any_def demo_env_def)

lemma demo_any_handles: "handles_of (demo_env_any qs) initial = Inr (''tokenizer'', ''model'')"
  by (simp add: handles_of_def initial_def demo_env_any_def demo_env_def)

lemma demo_any_embed_with: "embed_with (demo_env_any qs) tok mdl text = Inr text"
  by (simp add: embed_with_def demo_env_any_def demo_env_def)

lemma demo_any_similarity_to: "similarity_to (demo_env_any qs) tok mdl u q = demo_cosine u q"
  by (simp add: similarity_to_def demo_any_embed_with) (simp add: demo_env_any_def demo_env_def)

lemma demo_any_match_result:
  "match_result (demo_env_any [[]]) initial [] = Inr (Some [])"
  by (simp add: match_result_def demo_any_questions demo_any_handles demo_any_embed_with
      demo_any_similarity_to demo_cosine_def)

lemma demo_no_model_first:
  "g_tokenizer (snd (find_best_match (demo_env_no_model qs) user_query initial)) = Some ''tokenizer''"
  "g_model (snd (find_best_match (demo_env_no_model qs) user_query initial)) = None"
  "g_QUESTIONS (snd (find_best_match (demo_env_no_model qs) user_query initial)) = Some qs"
  by (simp_all add: find_best_match_def load_questions_def get_embedding_def load_model_def
      Let_def emit_def initial_def demo_env_no_model_def demo_env_def)

lemma demo_no_model_events:
  assumes "g_model s = None"
  shows "filter is_load (find_best_match_events (demo_env_no_model qs) s user_query) =
           questions_events s @
           [Print ''Loading semantic model...'', Tokenizer_from_pretrained MODEL_NAME,
            Model_from_pretrained MODEL_NAME]"
proof -
  have q: "\<exists>qs'. questions_of (demo_env_no_model qs) s = Inr qs'"
    by (simp add: questions_of_def demo_env_no_model_def demo_env_def split: option.splits)
  have m: "model_events (demo_env_no_model qs) s =
             [Print ''Loading semantic model...'', Tokenizer_from_pretrained MODEL_NAME,
              Model_from_pretrained MODEL_NAME]"
    using assms
    by (simp add: model_events_def demo_env_no_model_def demo_env_def split: option.splits)
  from q m show ?thesis by (auto simp: loads_find_best_match_events)
qed

section \<open>The claims\<close>

text \<open>
  Throughout, \<open>questions_of env s = Inr qs\<close> says that the reference set the call works
  with is \<open>qs\<close>, and \<open>similarity_of env s user_query q = Inr (Fin (score q))\<close> that the
  cosine similarity computed for the reference question \<open>q\<close> is the number \<open>score q\<close>.
\<close>

text \<open>
  C1: the scores being float32 values, a query for which some reference question scores at
  least 0.7 (in particular a query that is itself a reference question, whose
  self-similarity is about 1) is given a reference question that attains the maximum score,
  never \<open>None\<close>.  The test in the source is the strict \<open>highest_similarity > 0.7\<close>, but
  no float32 value equals 0.7 (its neighbours are \<open>11744051 / 2 ^ 24\<close> and
  \<open>11744052 / 2 ^ 24\<close>), so a score of at least 0.7 is a score above 0.7.
\<close>

theorem find_best_match_at_least_threshold:
  assumes "questions_of env s = Inr qs"
    and "\<forall>q\<in>set qs. similarity_of env s user_query q = Inr (Fin (score q))"
    and "\<forall>q\<in>set qs. float32 (score q)"
    and "q0 \<in> set qs" and "7 / 10 \<le> score q0"
  shows "\<exists>q\<in>set qs. fst (find_best_match env user_query s) = Inr (Some q) \<and>
           score q0 \<le> score q \<and> score q = Max (score ` set qs)"
proof -
  from assms(3,4) have "float32 (score q0)" by simp
  from float32_at_least_threshold [OF this assms(5)] have "7 / 10 < score q0" .
  from match_above_threshold [OF assms(1,2,4) this] show ?thesis .
qed

theorem find_best_match_at_least_threshold_witness:
  "questions_of (demo_env32 [''C'', ''AB'']) initial = Inr [''C'', ''AB''] \<and>
   similarity_of (demo_env32 [''C'', ''AB'']) initial ''XY'' ''C'' = Inr (Fin (3 / 4)) \<and>
   similarity_of (demo_env32 [''C'', ''AB'']) initial ''XY'' ''AB'' = Inr (Fin 1) \<and>
   float32 (3 / 4) \<and> float32 1 \<and>
   ''C'' \<in> set [''C'', ''AB''] \<and> (7 / 10 :: real) \<le> 3 / 4 \<and>
   fst (find_best_match (demo_env32 [''C'', ''AB'']) ''XY'' initial) = Inr (Some ''AB'')"
proof -
  let ?qs = "[''C'', ''AB'']"
  let ?sc = "\<lambda>q. if q = ''AB'' then 1 else 3 / (4 :: real)"
  have h1: "questions_of (demo_env32 ?qs) initial = Inr ?qs" by (rule demo32_questions)
  have s: "similarity_of (demo_env32 ?qs) initial ''XY'' ''C'' = Inr (Fin (3 / 4))"
    "similarity_of (demo_env32 ?qs) initial ''XY'' ''AB'' = Inr (Fin 1)"
    by (simp_all add: demo32_similarity_of)
  have h2: "\<forall>q\<in>set ?qs. similarity_of (demo_env32 ?qs) initial ''XY'' q = Inr (Fin (?sc q))"
    using s by simp
  have f: "float32 (3 / 4)" "float32 1" by (rule float32_examples)+
  have h3: "\<forall>q\<in>set ?qs. float32 (?sc q)" using f by simp
  have h4: "''C'' \<in> set ?qs" by simp
  have h5: "7 / 10 \<le> ?sc ''C''" by simp
  from find_best_match_at_least_threshold [OF h1 h2 h3 h4 h5] obtain q where
    q: "q \<in> set ?qs" "fst (find_best_match (demo_env32 ?qs) ''XY'' initial) = Inr (Some q)"
      "?sc q = Max (?sc ` set ?qs)" by blast
  have "Max (?sc ` set ?qs) = 1" by simp
  with q(1,3) have "q = ''AB''" by (auto split: if_splits)
  with q(2) h1 s f show ?thesis by simp
qed

text \<open>
  C2: for every query and every non-empty reference set, \<open>find_best_match\<close> returns a
  reference question if and only if the maximum similarity over the reference questions is
  strictly greater than 0.7, the returned question attains that maximum, and otherwise the
  result is \<open>None\<close>.
\<close>

theorem find_best_match_threshold:
  assumes "questions_of env s = Inr qs" and "qs \<noteq> []"
    and "\<forall>q\<in>set qs. similarity_of env s user_query q = Inr (Fin (score q))"
  shows "\<exists>r. fst (find_best_match env user_query s) = Inr r \<and>
           ((\<exists>q. r = Some q) \<longleftrightarrow> 7 / 10 < Max (score ` set qs)) \<and>
           (\<forall>q. r = Some q \<longrightarrow> q \<in> set qs \<and> score q = Max (score ` set qs))"
proof -
  from match_result_real [OF assms] obtain b where
    mr: "match_result env s user_query = Inr (if 7 / 10 < Max (score ` set qs) then b else None)"
    and b: "- 1 < Max (score ` set qs) \<longrightarrow>
             (\<exists>i<length qs. b = Some (qs ! i) \<and> score (qs ! i) = Max (score ` set qs) \<and>
                (\<forall>k<i. score (qs ! k) < score (qs ! i)))" by blast
  show ?thesis
  proof (cases "7 / 10 < Max (score ` set qs)")
    case True
    then have "- 1 < Max (score ` set qs)" by simp
    with b obtain i where "i < length qs" "b = Some (qs ! i)" "score (qs ! i) = Max (score ` set qs)"
      by blast
    with True mr show ?thesis by (simp add: find_best_match_fst)
  next
    case False
    with mr show ?thesis by (simp add: find_best_match_fst)
  qed
qed

theorem find_best_match_threshold_witness:
  "questions_of (demo_env [''AB'', ''C'']) initial = Inr [''AB'', ''C''] \<and>
   [''AB'', ''C''] \<noteq> [] \<and>
   similarity_of (demo_env [''AB'', ''C'']) initial ''XY'' ''AB'' = Inr (Fin 1) \<and>
   similarity_of (demo_env [''AB'', ''C'']) initial ''XY'' ''C'' = Inr (Fin (7 / 10)) \<and>
   fst (find_best_match (demo_env [''AB'', ''C'']) ''XY'' initial) = Inr (Some ''AB'')"
proof -
  let ?qs = "[''AB'', ''C'']"
  let ?sc = "\<lambda>q. if q = ''AB'' then 1 else 7 / (10 :: real)"
  have h1: "questions_of (demo_env ?qs) initial = Inr ?qs" by simp
  have h2: "?qs \<noteq> []" by simp
  have s1: "similarity_of (demo_env ?qs) initial ''XY'' ''AB'' = Inr (Fin 1)"
    and s2: "similarity_of (demo_env ?qs) initial ''XY'' ''C'' = Inr (Fin (7 / 10))"
    by (simp_all add: demo_similarity_of)
  have h3: "\<forall>q\<in>set ?qs. similarity_of (demo_env ?qs) initial ''XY'' q = Inr (Fin (?sc q))"
    using s1 s2 by simp
  have m: "Max (?sc ` set ?qs) = 1" by simp
  from find_best_match_threshold [OF h1 h2 h3] obtain r where
    r: "fst (find_best_match (demo_env ?qs) ''XY'' initial) = Inr r"
    and iff: "(\<exists>q. r = Some q) \<longleftrightarrow> 7 / 10 < Max (?sc ` set ?qs)"
    and mem: "\<forall>q. r = Some q \<longrightarrow> q \<in> set ?qs \<and> ?sc q = Max (?sc ` set ?qs)" by blast
  from iff m obtain q where q: "r = Some q" by auto
  with mem m have "q \<in> set ?qs" "?sc q = 1" by auto
  then have "q = ''AB''" by (auto split: if_splits)
  with r q h1 h2 s1 s2 show ?thesis by simp
qed

text \<open>
  C3: when several reference questions attain the maximal similarity, the one that comes
  first in load order is the one returned.  With \<open>i\<close> the earliest position that
  attains the maximum (every earlier position scores strictly less), the result is the
  question at \<open>i\<close> whenever anything is returned, that is whenever the maximum is above
  0.7: a later question with the same score never replaces it.
\<close>

theorem find_best_match_tie_break:
  assumes "questions_of env s = Inr qs"
    and "\<forall>q\<in>set qs. similarity_of env s user_query q = Inr (Fin (score q))"
    and "i < length qs" and "score (qs ! i) = Max (score ` set qs)"
    and "\<forall>k<i. score (qs ! k) < score (qs ! i)"
  shows "fst (find_best_match env user_query s) =
           Inr (if 7 / 10 < score (qs ! i) then Some (qs ! i) else None)"
proof -
  from assms(3) have ne: "qs \<noteq> []" by auto
  from match_result_real [OF assms(1) ne assms(2)] obtain b where
    mr: "match_result env s user_query = Inr (if 7 / 10 < Max (score ` set qs) then b else None)"
    and b: "- 1 < Max (score ` set qs) \<longrightarrow>
             (\<exists>j<length qs. b = Some (qs ! j) \<and> score (qs ! j) = Max (score ` set qs) \<and>
                (\<forall>k<j. score (qs ! k) < score (qs ! j)))" by blast
  show ?thesis
  proof (cases "7 / 10 < Max (score ` set qs)")
    case True
    then have "- 1 < Max (score ` set qs)" by simp
    with b obtain j where j: "j < length qs" "b = Some (qs ! j)"
      "score (qs ! j) = Max (score ` set qs)" "\<forall>k<j. score (qs ! k) < score (qs ! j)"
      by blast
    have "j = i"
    proof (rule ccontr)
      assume "j \<noteq> i"
      then consider "j < i" | "i < j" by arith
      then show False
      proof cases
        case 1
        with assms(5) have "score (qs ! j) < score (qs ! i)" by simp
        with j(3) assms(4) show False by simp
      next
        case 2
        with j(4) have "score (qs ! i) < score (qs ! j)" by simp
        with j(3) assms(4) show False by simp
      qed
    qed
    with True mr j(2) assms(4) show ?thesis by (simp add: find_best_match_fst)
  next
    case False
    with mr assms(4) show ?thesis by (simp add: find_best_match_fst)
  qed
qed

theorem find_best_match_tie_break_witness:
  "questions_of (demo_env [''C'', ''AB'', ''DE'', ''FGHI'']) initial =
     Inr [''C'', ''AB'', ''DE'', ''FGHI''] \<and>
   similarity_of (demo_env [''C'', ''AB'', ''DE'', ''FGHI'']) initial ''XY'' ''C'' = Inr (Fin (7 / 10)) \<and>
   similarity_of (demo_env [''C'', ''AB'', ''DE'', ''FGHI'']) initial ''XY'' ''AB'' = Inr (Fin 1) \<and>
   similarity_of (demo_env [''C'', ''AB'', ''DE'', ''FGHI'']) initial ''XY'' ''DE'' = Inr (Fin 1) \<and>
   similarity_of (demo_env [''C'', ''AB'', ''DE'', ''FGHI'']) initial ''XY'' ''FGHI'' = Inr (Fin (1 / 5)) \<and>
   fst (find_best_match (demo_env [''C'', ''AB'', ''DE'', ''FGHI'']) ''XY'' initial) =
     Inr (Some ''AB'')"
proof -
  let ?qs = "[''C'', ''AB'', ''DE'', ''FGHI'']"
  let ?sc = "\<lambda>q. if length q = 2 then 1 else if length q = 1 then 7 / 10 else 1 / (5 :: real)"
  have h1: "questions_of (demo_env ?qs) initial = Inr ?qs" by simp
  have s: "similarity_of (demo_env ?qs) initial ''XY'' ''C'' = Inr (Fin (7 / 10))"
    "similarity_of (demo_env ?qs) initial ''XY'' ''AB'' = Inr (Fin 1)"
    "similarity_of (demo_env ?qs) initial ''XY'' ''DE'' = Inr (Fin 1)"
    "similarity_of (demo_env ?qs) initial ''XY'' ''FGHI'' = Inr (Fin (1 / 5))"
    by (simp_all add: demo_similarity_of)
  have h2: "\<forall>q\<in>set ?qs. similarity_of (demo_env ?qs) initial ''XY'' q = Inr (Fin (?sc q))"
    using s by simp
  have h3: "Suc 0 < length ?qs" by simp
  have h4: "?sc (?qs ! Suc 0) = Max (?sc ` set ?qs)" by simp
  have h5: "\<forall>k<Suc 0. ?sc (?qs ! k) < ?sc (?qs ! Suc 0)" by simp
  from find_best_match_tie_break [OF h1 h2 h3 h4 h5]
  have "fst (find_best_match (demo_env ?qs) ''XY'' initial) = Inr (Some ''AB'')" by simp
  with h1 s show ?thesis by simp
qed

text \<open>
  C4, as amended: whenever \<open>find_best_match\<close> returns, the value is \<open>None\<close> or a member
  of the loaded reference set (the list then held by \<open>_QUESTIONS\<close>), never a string
  outside the set; it is the empty string only if the empty string is one of the reference
  questions.
\<close>

theorem find_best_match_member_or_None:
  assumes "find_best_match env user_query s = (Inr r, s')"
  shows "\<exists>qs. questions_of env s = Inr qs \<and> g_QUESTIONS s' = Some qs \<and>
           (r = None \<or> (\<exists>q\<in>set qs. r = Some q)) \<and>
           ([] \<notin> set qs \<longrightarrow> r \<noteq> Some [])"
proof -
  from assms obtain qs tok mdl u b h where
    q0: "questions_of env s = Inr qs" and q': "g_QUESTIONS s' = Some qs"
    and "loaded s' tok mdl" and "handles_of env s = Inr (tok, mdl)"
    and "embed_with env tok mdl user_query = Inr u"
    and sr: "scan_result (similarity_to env tok mdl u) qs None (Fin (- 1)) = Inr (b, h)"
    and r: "r = (if fgt h (Fin (7 / 10)) then b else None)"
    by (rule find_best_match_Inr)
  from scan_result_member [OF sr] have b: "b = None \<or> (\<exists>q\<in>set qs. b = Some q)" .
  have m: "r = None \<or> (\<exists>q\<in>set qs. r = Some q)"
  proof (cases "fgt h (Fin (7 / 10))")
    case True
    with r have "r = b" by simp
    with b show ?thesis by simp
  next
    case False
    with r show ?thesis by simp
  qed
  then have "[] \<notin> set qs \<longrightarrow> r \<noteq> Some []" by blast
  with q0 q' m show ?thesis by blast
qed

theorem find_best_match_member_or_None_witness:
  "find_best_match (demo_env [''AB'', ''C'']) ''XY'' initial =
     (Inr (Some ''AB''), snd (find_best_match (demo_env [''AB'', ''C'']) ''XY'' initial)) \<and>
   g_QUESTIONS (snd (find_best_match (demo_env [''AB'', ''C'']) ''XY'' initial)) =
     Some [''AB'', ''C''] \<and>
   ''AB'' \<in> set [''AB'', ''C'']"
proof -
  let ?s' = "snd (find_best_match (demo_env [''AB'', ''C'']) ''XY'' initial)"
  have h: "find_best_match (demo_env [''AB'', ''C'']) ''XY'' initial = (Inr (Some ''AB''), ?s')"
    using demo_run_1 by (simp add: prod_eq_iff)
  from find_best_match_member_or_None [OF h] obtain qs where
    "questions_of (demo_env [''AB'', ''C'']) initial = Inr qs" "g_QUESTIONS ?s' = Some qs" by blast
  then have "g_QUESTIONS ?s' = Some [''AB'', ''C'']" by simp
  with h show ?thesis by simp
qed

text \<open>
  C4, as stated, excludes the empty string altogether.  The source has no test for it: with
  a reference set that contains the empty string and a query that matches it, the empty
  string is what is returned.
\<close>

theorem find_best_match_empty_string_counterexample:
  "questions_of (demo_env_any [[]]) initial = Inr [[]] \<and>
   fst (find_best_match (demo_env_any [[]]) [] initial) = Inr (Some [])"
  by (simp add: find_best_match_fst demo_any_match_result demo_any_questions)

text \<open>
  C5: with an empty reference set, a call makes no cosine-similarity computation, never
  returns a question, and returns \<open>None\<close> as soon as the embedding of the query itself
  succeeds (the query is still embedded, so a failure there is raised).
\<close>

theorem find_best_match_empty_set:
  assumes "questions_of env s = Inr []"
  shows "(\<exists>evs. trace (snd (find_best_match env user_query s)) = trace s @ evs \<and>
            Cosine_similarity \<notin> set evs) \<and>
         (\<forall>q. fst (find_best_match env user_query s) \<noteq> Inr (Some q)) \<and>
         (\<forall>u. fst (get_embedding env user_query s) = Inr u \<longrightarrow>
            fst (find_best_match env user_query s) = Inr None)"
proof -
  have ev: "find_best_match_events env s user_query =
              questions_events s @ get_embedding_events env s user_query"
    by (simp add: find_best_match_events_def assms split: sum.splits)
  have c: "Cosine_similarity \<notin> set (find_best_match_events env s user_query)"
    by (simp add: ev Cosine_not_in_questions_events Cosine_not_in_get_embedding_events)
  have a: "\<exists>evs. trace (snd (find_best_match env user_query s)) = trace s @ evs \<and>
            Cosine_similarity \<notin> set evs"
    using c find_best_match_trace [of env user_query s] by blast
  have r: "fst (find_best_match env user_query s) =
           (case fst (get_embedding env user_query s) of Inl e \<Rightarrow> Inl e | Inr u \<Rightarrow> Inr None)"
    by (simp add: find_best_match_fst match_result_empty [OF assms])
  have b: "\<forall>q. fst (find_best_match env user_query s) \<noteq> Inr (Some q)"
    unfolding r by (simp split: sum.splits)
  have d: "\<forall>u. fst (get_embedding env user_query s) = Inr u \<longrightarrow>
            fst (find_best_match env user_query s) = Inr None"
    unfolding r by simp
  from a b d show ?thesis by (intro conjI)
qed

theorem find_best_match_empty_set_witness:
  "questions_of (demo_env []) initial = Inr [] \<and>
   fst (get_embedding (demo_env []) ''XY'' initial) = Inr (''XY'') \<and>
   fst (find_best_match (demo_env []) ''XY'' initial) = Inr None \<and>
   Cosine_similarity \<notin> set (trace (snd (find_best_match (demo_env []) ''XY'' initial)))"
proof -
  have h: "questions_of (demo_env []) initial = Inr []" by simp
  have g: "fst (get_embedding (demo_env []) ''XY'' initial) = Inr (''XY'')"
    by (simp add: demo_get_embedding)
  have t0: "trace (initial :: (string, string) globals) = []" by (simp add: initial_def)
  from find_best_match_empty_set [OF h, of "''XY''"] g t0
  have "fst (find_best_match (demo_env []) ''XY'' initial) = Inr None"
    and "Cosine_similarity \<notin> set (trace (snd (find_best_match (demo_env []) ''XY'' initial)))"
    by auto
  with h g show ?thesis by simp
qed

text \<open>
  C6, as amended: when the question file and the two artifacts can be loaded, any non-empty
  sequence of calls started from the uninitialised globals performs the initialization
  exactly once (one read of the questions, one tokenizer load, one model load, each log
  line once), all of it during the first call; afterwards the globals hold the handles and
  the questions that were loaded, and every later embedding request uses those handles and
  loads nothing.
\<close>

theorem initialization_happens_once:
  assumes "read_questions_json env = Inr qs"
    and "AutoTokenizer_from_pretrained env MODEL_NAME = Inr tok"
    and "AutoModel_from_pretrained env MODEL_NAME = Inr mdl"
    and "queries \<noteq> []"
  shows "filter is_load (trace (run_calls env queries initial)) = initialization \<and>
         filter is_load (trace (snd (find_best_match env (hd queries) initial))) = initialization \<and>
         g_tokenizer (run_calls env queries initial) = Some tok \<and>
         g_model (run_calls env queries initial) = Some mdl \<and>
         g_QUESTIONS (run_calls env queries initial) = Some qs \<and>
         (\<forall>text. fst (get_embedding env text (run_calls env queries initial)) =
                   embed_with env tok mdl text \<and>
                 filter is_load (trace (snd (get_embedding env text (run_calls env queries initial)))) =
                   initialization)"
proof -
  from assms(4) obtain q rest where qs: "queries = q # rest" by (cases queries) auto
  let ?s1 = "snd (find_best_match env q initial)"
  have qo: "questions_of env initial = Inr qs" by (simp add: questions_of_def assms(1))
  have ho: "handles_of env initial = Inr (tok, mdl)"
    by (simp add: handles_of_def assms(2,3))
  from find_best_match_ready [OF qo ho, of q]
  have l1: "loaded ?s1 tok mdl" and q1: "g_QUESTIONS ?s1 = Some qs" by simp_all
  have t1: "filter is_load (trace ?s1) = initialization"
    by (simp add: find_best_match_trace loads_find_best_match_events qo questions_events_def
        model_events_def assms(2,3) initialization_def)
  let ?sn = "run_calls env queries initial"
  from run_calls_ready [OF l1 q1, of env rest] t1
  have ln: "loaded ?sn tok mdl" and qn: "g_QUESTIONS ?sn = Some qs"
    and tn: "filter is_load (trace ?sn) = initialization"
    by (simp_all add: qs)
  have e: "\<forall>text. fst (get_embedding env text ?sn) = embed_with env tok mdl text \<and>
             filter is_load (trace (snd (get_embedding env text ?sn))) = initialization"
    by (simp add: get_embedding_loaded(1) [OF ln] get_embedding_trace_loaded [OF ln] tn)
  from ln have "g_tokenizer ?sn = Some tok" "g_model ?sn = Some mdl" by (simp_all add: loaded_def)
  with tn t1 qn e show ?thesis by (simp add: qs)
qed

theorem initialization_happens_once_witness:
  "read_questions_json (demo_env [''AB'', ''C'']) = Inr [''AB'', ''C''] \<and>
   AutoTokenizer_from_pretrained (demo_env [''AB'', ''C'']) MODEL_NAME = Inr ''tokenizer'' \<and>
   AutoModel_from_pretrained (demo_env [''AB'', ''C'']) MODEL_NAME = Inr ''model'' \<and>
   [''XY'', [], ''Z''] \<noteq> [] \<and>
   filter is_load (trace (run_calls (demo_env [''AB'', ''C'']) [''XY'', [], ''Z''] initial)) =
     [Read_questions, Print ''Loading semantic model...'',
      Tokenizer_from_pretrained MODEL_NAME, Model_from_pretrained MODEL_NAME,
      Print ''Semantic model loaded successfully''] \<and>
   g_tokenizer (run_calls (demo_env [''AB'', ''C'']) [''XY'', [], ''Z''] initial) = Some ''tokenizer'' \<and>
   g_model (run_calls (demo_env [''AB'', ''C'']) [''XY'', [], ''Z''] initial) = Some ''model''"
proof -
  let ?env = "demo_env [''AB'', ''C'']"
  have h1: "read_questions_json ?env = Inr [''AB'', ''C'']"
    and h2: "AutoTokenizer_from_pretrained ?env MODEL_NAME = Inr ''tokenizer''"
    and h3: "AutoModel_from_pretrained ?env MODEL_NAME = Inr ''model''"
    and h4: "[''XY'', [], ''Z''] \<noteq> []" by simp_all
  from initialization_happens_once [OF h1 h2 h3 h4] h1 h2 h3 h4 show ?thesis
    by (simp add: initialization_def)
qed

text \<open>
  C6, as stated, holds for every run.  When the model cannot be loaded, the tokenizer has
  been stored already, \<open>_model\<close> stays unset, and the test
  \<open>_tokenizer is None or _model is None\<close> sends every later call through both loads
  again: two calls load the tokenizer twice.
\<close>

theorem initialization_repeats_counterexample:
  "AutoTokenizer_from_pretrained (demo_env_no_model [''AB'']) MODEL_NAME = Inr ''tokenizer'' \<and>
   AutoModel_from_pretrained (demo_env_no_model [''AB'']) MODEL_NAME = Inl ''ModelLoadError'' \<and>
   g_tokenizer (snd (find_best_match (demo_env_no_model [''AB'']) ''XY'' initial)) =
     Some ''tokenizer'' \<and>
   filter is_load (trace (run_calls (demo_env_no_model [''AB'']) [''XY'', ''XY''] initial)) =
     [Read_questions,
      Print ''Loading semantic model...'', Tokenizer_from_pretrained MODEL_NAME,
      Model_from_pretrained MODEL_NAME,
      Print ''Loading semantic model...'', Tokenizer_from_pretrained MODEL_NAME,
      Model_from_pretrained MODEL_NAME]"
proof -
  let ?env = "demo_env_no_model [''AB'']"
  let ?s1 = "snd (find_best_match ?env ''XY'' initial)"
  have a: "AutoTokenizer_from_pretrained ?env MODEL_NAME = Inr ''tokenizer''"
    "AutoModel_from_pretrained ?env MODEL_NAME = Inl ''ModelLoadError''"
    by (simp_all add: demo_env_no_model_def demo_env_def)
  have t1: "filter is_load (trace ?s1) =
      [Read_questions, Print ''Loading semantic model...'',
       Tokenizer_from_pretrained MODEL_NAME, Model_from_pretrained MODEL_NAME]"
    by (simp add: find_best_match_trace demo_no_model_events questions_events_def)
  have q1: "questions_events ?s1 = []"
    by (simp add: questions_events_def demo_no_model_first)
  have t2: "filter is_load (trace (snd (find_best_match ?env ''XY'' ?s1))) =
      [Read_questions, Print ''Loading semantic model...'',
       Tokenizer_from_pretrained MODEL_NAME, Model_from_pretrained MODEL_NAME,
       Print ''Loading semantic model...'',
       Tokenizer_from_pretrained MODEL_NAME, Model_from_pretrained MODEL_NAME]"
    by (simp add: find_best_match_trace [of ?env "''XY''" ?s1] t1
        demo_no_model_events [OF demo_no_model_first(2)] q1)
  from a t2 demo_no_model_first(1) [of "[''AB'']" "''XY''"] show ?thesis by simp
qed

text \<open>
  C7: \<open>find_best_match\<close> handles no exception.  Whatever stops first (reading the
  questions, loading tokenizer or model, embedding the query, or embedding and comparing the
  first reference question that fails) is what the call raises, with the same exception
  value; and a call that returns normally is one in which none of these failed, so no
  failure is ever turned into a result.
\<close>

theorem find_best_match_propagates:
  "(questions_of env s = Inl e \<longrightarrow> fst (find_best_match env user_query s) = Inl e) \<and>
   (questions_of env s = Inr qs \<and> handles_of env s = Inl e \<longrightarrow>
      fst (find_best_match env user_query s) = Inl e) \<and>
   (questions_of env s = Inr qs \<and> handles_of env s = Inr (tok, mdl) \<and>
    embed_with env tok mdl user_query = Inl e \<longrightarrow>
      fst (find_best_match env user_query s) = Inl e) \<and>
   (questions_of env s = Inr qs \<and> handles_of env s = Inr (tok, mdl) \<and>
    embed_with env tok mdl user_query = Inr u \<and> i < length qs \<and>
    (\<forall>k<i. \<exists>x. similarity_to env tok mdl u (qs ! k) = Inr x) \<and>
    similarity_to env tok mdl u (qs ! i) = Inl e \<longrightarrow>
      fst (find_best_match env user_query s) = Inl e) \<and>
   (fst (find_best_match env user_query s) = Inr r \<longrightarrow>
      (\<exists>qs' tok' mdl' u'.
         questions_of env s = Inr qs' \<and> handles_of env s = Inr (tok', mdl') \<and>
         embed_with env tok' mdl' user_query = Inr u' \<and>
         (\<forall>q\<in>set qs'. \<exists>x. similarity_to env tok' mdl' u' q = Inr x)))"
proof (intro conjI impI)
  assume "questions_of env s = Inl e"
  then show "fst (find_best_match env user_query s) = Inl e"
    by (simp add: find_best_match_fst match_result_def)
next
  assume "questions_of env s = Inr qs \<and> handles_of env s = Inl e"
  then show "fst (find_best_match env user_query s) = Inl e"
    by (simp add: find_best_match_fst match_result_def)
next
  assume "questions_of env s = Inr qs \<and> handles_of env s = Inr (tok, mdl) \<and>
    embed_with env tok mdl user_query = Inl e"
  then show "fst (find_best_match env user_query s) = Inl e"
    by (simp add: find_best_match_fst match_result_def)
next
  assume a: "questions_of env s = Inr qs \<and> handles_of env s = Inr (tok, mdl) \<and>
    embed_with env tok mdl user_query = Inr u \<and> i < length qs \<and>
    (\<forall>k<i. \<exists>x. similarity_to env tok mdl u (qs ! k) = Inr x) \<and>
    similarity_to env tok mdl u (qs ! i) = Inl e"
  then have i: "i < length qs"
    and before: "\<forall>k<i. \<exists>x. similarity_to env tok mdl u (qs ! k) = Inr x"
    and at: "similarity_to env tok mdl u (qs ! i) = Inl e" by simp_all
  have "scan_result (similarity_to env tok mdl u) qs None (Fin (- 1)) = Inl e"
    by (rule scan_result_first_failure [OF i before at])
  with a show "fst (find_best_match env user_query s) = Inl e"
    by (simp add: find_best_match_fst match_result_def)
next
  assume "fst (find_best_match env user_query s) = Inr r"
  then have m: "match_result env s user_query = Inr r" by (simp add: find_best_match_fst)
  then obtain qs' where q: "questions_of env s = Inr qs'"
    by (cases "questions_of env s") (simp_all add: match_result_def)
  from m q obtain tok' mdl' where h: "handles_of env s = Inr (tok', mdl')"
    by (cases "handles_of env s") (auto simp: match_result_def)
  from m q h obtain u' where e: "embed_with env tok' mdl' user_query = Inr u'"
    by (cases "embed_with env tok' mdl' user_query") (simp_all add: match_result_def)
  from m q h e obtain p where
    "scan_result (similarity_to env tok' mdl' u') qs' None (Fin (- 1)) = Inr p"
    by (cases "scan_result (similarity_to env tok' mdl' u') qs' None (Fin (- 1))")
      (simp_all add: match_result_def)
  from scan_result_all_succeeded [OF this] q h e
  show "\<exists>qs' tok' mdl' u'.
         questions_of env s = Inr qs' \<and> handles_of env s = Inr (tok', mdl') \<and>
         embed_with env tok' mdl' user_query = Inr u' \<and>
         (\<forall>q\<in>set qs'. \<exists>x. similarity_to env tok' mdl' u' q = Inr x)" by blast
qed

theorem find_best_match_propagates_witness:
  "questions_of (demo_env [''AB'']\<lparr>read_questions_json := Inl ''ConfigurationError''\<rparr>) initial =
     Inl ''ConfigurationError'' \<and>
   fst (find_best_match (demo_env [''AB'']\<lparr>read_questions_json := Inl ''ConfigurationError''\<rparr>)
          ''XY'' initial) = Inl ''ConfigurationError'' \<and>
   questions_of (demo_env [''AB'']\<lparr>AutoModel_from_pretrained := (\<lambda>name. Inl ''ModelLoadError'')\<rparr>)
      initial = Inr [''AB''] \<and>
   handles_of (demo_env [''AB'']\<lparr>AutoModel_from_pretrained := (\<lambda>name. Inl ''ModelLoadError'')\<rparr>)
      initial = Inl ''ModelLoadError'' \<and>
   fst (find_best_match
          (demo_env [''AB'']\<lparr>AutoModel_from_pretrained := (\<lambda>name. Inl ''ModelLoadError'')\<rparr>)
          ''XY'' initial) = Inl ''ModelLoadError'' \<and>
   embed_with (demo_env [''AB'']) ''tokenizer'' ''model'' [] = Inl ''EncodingError'' \<and>
   fst (find_best_match (demo_env [''AB'']) [] initial) = Inl ''EncodingError'' \<and>
   similarity_to (demo_env [''AB'', [], ''C'']) ''tokenizer'' ''model''
      (''XY'') ''AB'' = Inr (Fin 1) \<and>
   similarity_to (demo_env [''AB'', [], ''C'']) ''tokenizer'' ''model''
      (''XY'') [] = Inl ''EncodingError'' \<and>
   fst (find_best_match (demo_env [''AB'', [], ''C'']) ''XY'' initial) = Inl ''EncodingError''"
proof -
  let ?e1 = "demo_env [''AB'']\<lparr>read_questions_json := Inl ''ConfigurationError''\<rparr>"
  let ?e2 = "demo_env [''AB'']\<lparr>AutoModel_from_pretrained := (\<lambda>name. Inl ''ModelLoadError'')\<rparr>"
  let ?e3 = "demo_env [''AB'']"
  let ?e4 = "demo_env [''AB'', [], ''C'']"
  let ?u = "''XY''"
  have a1: "questions_of ?e1 initial = Inl ''ConfigurationError''"
    by (simp add: questions_of_def)
  from find_best_match_propagates [where env = ?e1 and s = initial and e = "''ConfigurationError''"
      and user_query = "''XY''"] a1
  have r1: "fst (find_best_match ?e1 ''XY'' initial) = Inl ''ConfigurationError''" by blast
  have a2: "questions_of ?e2 initial = Inr [''AB'']"
    and b2: "handles_of ?e2 initial = Inl ''ModelLoadError''"
    by (simp_all add: questions_of_def handles_of_def demo_env_def)
  from find_best_match_propagates [where env = ?e2 and s = initial and e = "''ModelLoadError''"
      and user_query = "''XY''" and qs = "[''AB'']"] a2 b2
  have r2: "fst (find_best_match ?e2 ''XY'' initial) = Inl ''ModelLoadError''" by blast
  have a3: "questions_of ?e3 initial = Inr [''AB'']"
    and b3: "handles_of ?e3 initial = Inr (''tokenizer'', ''model'')"
    and c3: "embed_with ?e3 ''tokenizer'' ''model'' [] = Inl ''EncodingError''"
    by (simp_all add: demo_embed_with_empty)
  from find_best_match_propagates [where env = ?e3 and s = initial and e = "''EncodingError''"
      and user_query = "[]" and qs = "[''AB'']" and tok = "''tokenizer''" and mdl = "''model''"]
    a3 b3 c3
  have r3: "fst (find_best_match ?e3 [] initial) = Inl ''EncodingError''" by blast
  have a4: "questions_of ?e4 initial = Inr [''AB'', [], ''C'']"
    and b4: "handles_of ?e4 initial = Inr (''tokenizer'', ''model'')"
    and c4: "embed_with ?e4 ''tokenizer'' ''model'' ''XY'' = Inr ?u"
    and d4: "Suc 0 < length [''AB'', [], ''C'']"
    and f4: "similarity_to ?e4 ''tokenizer'' ''model'' ?u ''AB'' = Inr (Fin 1)"
    and g4: "similarity_to ?e4 ''tokenizer'' ''model'' ?u [] = Inl ''EncodingError''"
    by (simp_all add: demo_embed_with demo_similarity_to demo_similarity_to_empty)
  have e4: "\<forall>k<Suc 0. \<exists>x. similarity_to ?e4 ''tokenizer'' ''model'' ?u ([''AB'', [], ''C''] ! k) = Inr x"
    using f4 by simp
  have g4': "similarity_to ?e4 ''tokenizer'' ''model'' ?u ([''AB'', [], ''C''] ! Suc 0) = Inl ''EncodingError''"
    using g4 by simp
  from find_best_match_propagates [where env = ?e4 and s = initial and e = "''EncodingError''"
      and user_query = "''XY''" and qs = "[''AB'', [], ''C'']" and tok = "''tokenizer''"
      and mdl = "''model''" and u = ?u and i = "Suc 0"]
    a4 b4 c4 d4 e4 g4'
  have r4: "fst (find_best_match ?e4 ''XY'' initial) = Inl ''EncodingError''" by blast
  from a1 r1 a2 b2 r2 c3 r3 f4 g4 r4 show ?thesis by (intro conjI) assumption+
qed

text \<open>
  C10: whenever the reference set can be read, the events of a call are: the lazy read of
  the questions (if \<open>_QUESTIONS\<close> was unset), then the one entry into \<open>get_embedding\<close>
  for the query with the lazy load of tokenizer and model (if one of them was unset) and the
  inference on the query, and only then the events of the scan.  Every entry into
  \<open>get_embedding\<close> during the scan is for a reference question, a non-empty scan starts
  with the first reference question, and an empty reference set has no scan at all, yet
  the loads and the query's embedding still happen.
\<close>

theorem find_best_match_embeds_query_first:
  assumes "questions_of env s = Inr qs"
  shows "\<exists>infer scanned.
           trace (snd (find_best_match env user_query s)) =
             trace s @ questions_events s @ Call_get_embedding user_query # model_events env s @
             infer @ scanned \<and>
           set infer \<subseteq> {Tokenizer_call user_query, Model_call False} \<and>
           (\<forall>q. Call_get_embedding q \<notin> set (questions_events s @ model_events env s @ infer)) \<and>
           (\<forall>q. Call_get_embedding q \<in> set scanned \<longrightarrow> q \<in> set qs) \<and>
           (Cosine_similarity \<in> set scanned \<longrightarrow> qs \<noteq> []) \<and>
           (qs = [] \<longrightarrow> scanned = []) \<and>
           (scanned \<noteq> [] \<longrightarrow> hd scanned = Call_get_embedding (hd qs)) \<and>
           (g_QUESTIONS s = None \<longrightarrow> questions_events s = [Read_questions]) \<and>
           (g_tokenizer s = None \<or> g_model s = None \<longrightarrow>
              take 2 (model_events env s) =
                [Print ''Loading semantic model...'', Tokenizer_from_pretrained MODEL_NAME])"
proof -
  from find_best_match_events_split [OF assms, of user_query] obtain infer scanned where
    e: "find_best_match_events env s user_query =
             questions_events s @ Call_get_embedding user_query # model_events env s @
             infer @ scanned"
    and r: "set infer \<subseteq> {Tokenizer_call user_query, Model_call False}"
      "\<forall>q. Call_get_embedding q \<in> set scanned \<longrightarrow> q \<in> set qs"
      "Cosine_similarity \<in> set scanned \<longrightarrow> qs \<noteq> []"
      "qs = [] \<longrightarrow> scanned = []"
      "scanned \<noteq> [] \<longrightarrow> hd scanned = Call_get_embedding (hd qs)" by blast
  have t: "trace (snd (find_best_match env user_query s)) =
             trace s @ questions_events s @ Call_get_embedding user_query # model_events env s @
             infer @ scanned"
    by (simp add: find_best_match_trace e)
  have q: "g_QUESTIONS s = None \<longrightarrow> questions_events s = [Read_questions]"
    by (simp add: questions_events_def)
  have m: "g_tokenizer s = None \<or> g_model s = None \<longrightarrow>
              take 2 (model_events env s) =
                [Print ''Loading semantic model...'', Tokenizer_from_pretrained MODEL_NAME]"
    by (auto simp: model_events_def numeral_2_eq_2 split: option.splits)
  have n: "\<forall>q. Call_get_embedding q \<notin> set (questions_events s @ model_events env s @ infer)"
    using r(1) by (auto simp: questions_events_def model_events_def split: option.splits sum.splits)
  show ?thesis
    apply (rule exI [of _ infer], rule exI [of _ scanned])
    using t r n q m by (intro conjI) assumption+
qed

theorem find_best_match_embeds_query_first_witness:
  "questions_of (demo_env []) initial = Inr [] \<and>
   trace (snd (find_best_match (demo_env []) ''XY'' initial)) =
     [Read_questions, Call_get_embedding ''XY'',
      Print ''Loading semantic model...'', Tokenizer_from_pretrained MODEL_NAME,
      Model_from_pretrained MODEL_NAME, Print ''Semantic model loaded successfully'',
      Tokenizer_call ''XY'', Model_call False] \<and>
   g_QUESTIONS (initial :: (string, string) globals) = None \<and>
   g_tokenizer (initial :: (string, string) globals) = None"
proof -
  have h: "questions_of (demo_env []) initial = Inr []" by simp
  have n: "g_QUESTIONS (initial :: (string, string) globals) = None"
    "g_tokenizer (initial :: (string, string) globals) = None"
    by (simp_all add: initial_def)
  have t0: "trace (initial :: (string, string) globals) = []" by (simp add: initial_def)
  from find_best_match_embeds_query_first [OF h, of "''XY''"] obtain infer scanned where
    t: "trace (snd (find_best_match (demo_env []) ''XY'' initial)) =
          trace (initial :: (string, string) globals) @ questions_events (initial :: (string, string) globals) @
          Call_get_embedding ''XY'' # model_events (demo_env []) initial @ infer @ scanned"
    and s: "([] :: string list) = [] \<longrightarrow> scanned = []"
    and i: "set infer \<subseteq> {Tokenizer_call ''XY'', Model_call False}"
    by blast
  from s have "scanned = []" by simp
  with t t0 have t': "trace (snd (find_best_match (demo_env []) ''XY'' initial)) =
          Read_questions # Call_get_embedding ''XY'' #
          Print ''Loading semantic model...'' # Tokenizer_from_pretrained MODEL_NAME #
          Model_from_pretrained MODEL_NAME # Print ''Semantic model loaded successfully'' # infer"
    by (simp add: demo_questions_events demo_model_events)
  with demo_trace_empty have "infer = [Tokenizer_call ''XY'', Model_call False]" by simp
  with t' h n show ?thesis by simp
qed

end
